theory Spec2Isabelle
  imports Complex_Main
begin

section \<open>Values\<close>

text \<open>
  The values a variable specification holds and a caller passes to \<open>render\<close>: \<open>None\<close>,
  booleans, integers, floats, strings, and objects of any other class (a list, a mapping, a
  set, a date: what YAML or a caller can also supply). A finite float carries the rational
  number it denotes together with the text \<open>repr\<close> gives for it (NaN and the infinities are
  not modelled). Strings are lists of characters compared by code point.

  An object of another class is given by what the program can observe of it: the name of
  its class, the text \<open>str\<close> gives for it, its truth value, and whether it can be hashed
  (a list or a mapping cannot). It is no instance of \<open>str\<close>, \<open>int\<close>, \<open>float\<close> or
  \<open>bool\<close> and is equal to no string.
\<close>

record pyobj =
  obj_class :: string
  obj_str :: string
  obj_truth :: bool
  obj_hashable :: bool

datatype pyval = PNone | PBool bool | PInt int | PFloat rat string | PStr string | PObj pyobj

text \<open>
  The scalars of a YAML document, for the \<open>version\<close> field, which the vault compares and
  sorts; \<open>scalar_val\<close> is the value a scalar loads as.
\<close>

datatype yscalar = YNone | YBool bool | YInt int | YFloat rat string | YStr string

fun scalar_val :: "yscalar \<Rightarrow> pyval" where
  "scalar_val YNone = PNone"
| "scalar_val (YBool b) = PBool b"
| "scalar_val (YInt i) = PInt i"
| "scalar_val (YFloat r t) = PFloat r t"
| "scalar_val (YStr s) = PStr s"

text \<open>The four classes that \<open>type_map\<close> of \<open>Prompt._validate\<close> maps to.\<close>

datatype pytype = T_str | T_int | T_float | T_bool

text \<open>
  Exceptions, with the data their messages are built from.
  \<^item> \<open>KeyError k\<close>: a plain mapping lookup \<open>d[k]\<close> that fails;
  \<^item> \<open>KeyError_required var name version\<close>: raised by \<open>Prompt._validate\<close>;
  \<^item> \<open>KeyError_missing key name version declared\<close>: raised by \<open>Prompt.render\<close>;
  \<^item> \<open>TypeError_var var name expected actual\<close>: raised by \<open>Prompt._validate\<close>;
  \<^item> \<open>TypeError_unhashable class\<close>: a mapping lookup with a key that cannot be hashed;
  \<^item> \<open>TypeError_multiple_values arg\<close>: a call that gives a parameter two values;
  \<^item> \<open>TypeError_compare\<close>: \<open><\<close> between values that do not compare;
  \<^item> \<open>ValueError_placeholder\<close>: \<open>Template.substitute\<close> at an ill-formed \<open>$\<close>;
  \<^item> \<open>FileNotFoundError_prompt name available\<close> and
    \<open>FileNotFoundError_version name version available\<close>: raised by \<open>PromptVault.load\<close>;
  \<^item> \<open>FileNotFoundError path\<close>, \<open>FileExistsError path\<close>, \<open>NotADirectoryError path\<close>,
    \<open>IsADirectoryError path\<close>: raised by \<open>PromptVault.__init__\<close> and by the file system.
\<close>

datatype error =
    KeyError string
  | KeyError_required string string string
  | KeyError_missing string string string "string list"
  | TypeError_var string string string string
  | TypeError_unhashable string
  | TypeError_multiple_values string
  | TypeError_compare
  | ValueError_placeholder
  | FileNotFoundError_prompt string "string list"
  | FileNotFoundError_version string string "pyval list"
  | FileNotFoundError "string list"
  | FileExistsError "string list"
  | NotADirectoryError "string list"
  | IsADirectoryError "string list"

text \<open>Truth value of an object, as \<open>if x:\<close> tests it.\<close>

fun truthy :: "pyval \<Rightarrow> bool" where
  "truthy PNone = False"
| "truthy (PBool b) = b"
| "truthy (PInt i) = (i \<noteq> 0)"
| "truthy (PFloat r t) = (r \<noteq> 0)"
| "truthy (PStr s) = (s \<noteq> [])"
| "truthy (PObj ob) = obj_truth ob"

text \<open>\<open>isinstance(v, t)\<close>; \<open>bool\<close> is a subclass of \<open>int\<close>.\<close>

fun isinstance :: "pyval \<Rightarrow> pytype \<Rightarrow> bool" where
  "isinstance v T_str = (case v of PStr s \<Rightarrow> True | _ \<Rightarrow> False)"
| "isinstance v T_int = (case v of PInt i \<Rightarrow> True | PBool b \<Rightarrow> True | _ \<Rightarrow> False)"
| "isinstance v T_float = (case v of PFloat r t \<Rightarrow> True | _ \<Rightarrow> False)"
| "isinstance v T_bool = (case v of PBool b \<Rightarrow> True | _ \<Rightarrow> False)"

text \<open>\<open>type(v).__name__\<close>.\<close>

fun type_name :: "pyval \<Rightarrow> string" where
  "type_name PNone = ''NoneType''"
| "type_name (PBool b) = ''bool''"
| "type_name (PInt i) = ''int''"
| "type_name (PFloat r t) = ''float''"
| "type_name (PStr s) = ''str''"
| "type_name (PObj ob) = obj_class ob"

text \<open>Decimal digits of a natural number, most significant first.\<close>

fun digits :: "nat \<Rightarrow> string" where
  "digits n = (if n < 10 then [char_of (48 + n)]
               else digits (n div 10) @ [char_of (48 + n mod 10)])"

text \<open>\<open>str(v)\<close>.\<close>

fun py_str :: "pyval \<Rightarrow> string" where
  "py_str PNone = ''None''"
| "py_str (PBool b) = (if b then ''True'' else ''False'')"
| "py_str (PInt i) = (if i < 0 then CHR ''-'' # digits (nat (- i)) else digits (nat i))"
| "py_str (PFloat r t) = t"
| "py_str (PStr s) = s"
| "py_str (PObj ob) = obj_str ob"

text \<open>\<open>s < t\<close> on strings: lexicographic, by code point.\<close>

fun str_lt :: "string \<Rightarrow> string \<Rightarrow> bool" where
  "str_lt [] [] = False"
| "str_lt [] (y # ys) = True"
| "str_lt (x # xs) [] = False"
| "str_lt (x # xs) (y # ys) =
     (if x = y then str_lt xs ys else (of_char x :: nat) < of_char y)"

text \<open>The number a numeric object denotes; \<open>True\<close> is 1 and \<open>False\<close> is 0.\<close>

fun num_val :: "yscalar \<Rightarrow> rat option" where
  "num_val (YBool b) = Some (if b then 1 else 0)"
| "num_val (YInt i) = Some (of_int i)"
| "num_val (YFloat r t) = Some r"
| "num_val v = None"

text \<open>
  \<open>a < b\<close> on scalars: strings compare with strings and numbers with numbers; every other
  pair raises \<open>TypeError\<close>, which is the value \<open>None\<close> here.
\<close>

definition py_lt :: "yscalar \<Rightarrow> yscalar \<Rightarrow> bool option" where
  "py_lt a b =
     (case (a, b) of
        (YStr s, YStr t) \<Rightarrow> Some (str_lt s t)
      | _ \<Rightarrow>
          (case (num_val a, num_val b) of
             (Some x, Some y) \<Rightarrow> Some (x < y)
           | _ \<Rightarrow> None))"

text \<open>
  \<open>sorted(xs, key=key)\<close> with scalar keys. The sort is stable and uses \<open><\<close> only. A list of fewer than
  two elements is returned without a comparison. On a longer list the comparisons made
  link all elements, so the call raises \<open>TypeError\<close> exactly when two of the keys do not
  compare; otherwise the result is the stable sorted arrangement, computed here by
  insertion from the right.
\<close>

fun insort_lt :: "('a \<Rightarrow> 'a \<Rightarrow> bool) \<Rightarrow> 'a \<Rightarrow> 'a list \<Rightarrow> 'a list" where
  "insort_lt lt x [] = [x]"
| "insort_lt lt x (y # ys) = (if lt y x then y # insort_lt lt x ys else x # y # ys)"

definition py_sorted :: "('a \<Rightarrow> yscalar) \<Rightarrow> 'a list \<Rightarrow> error + 'a list" where
  "py_sorted key xs =
     (if length xs < 2 then Inr xs
      else if list_all (\<lambda>x. list_all (\<lambda>y. py_lt (key x) (key y) \<noteq> None) xs) xs
      then Inr (foldr (insort_lt (\<lambda>a b. py_lt (key a) (key b) = Some True)) xs [])
      else Inl TypeError_compare)"

section \<open>Dictionaries\<close>

text \<open>
  A \<open>dict\<close> with string keys is an association list in insertion order; lookup is
  \<^const>\<open>map_of\<close>. Assigning to a key keeps the key's position when it is present and
  appends it otherwise. A well-formed dictionary has distinct keys.
\<close>

type_synonym 'v dict = "(string \<times> 'v) list"

fun dict_set :: "'v dict \<Rightarrow> string \<Rightarrow> 'v \<Rightarrow> 'v dict" where
  "dict_set [] k v = [(k, v)]"
| "dict_set ((k', v') # kvs) k v =
     (if k' = k then (k, v) # kvs else (k', v') # dict_set kvs k v)"

text \<open>\<open>d.update(other)\<close>: assigns the items of \<open>other\<close> in order.\<close>

fun dict_update :: "'v dict \<Rightarrow> 'v dict \<Rightarrow> 'v dict" where
  "dict_update d [] = d"
| "dict_update d ((k, v) # kvs) = dict_update (dict_set d k v) kvs"

text \<open>\<open>d.get(k, default)\<close>.\<close>

definition dict_get :: "'v dict \<Rightarrow> string \<Rightarrow> 'v \<Rightarrow> 'v" where
  "dict_get d k dflt = (case map_of d k of None \<Rightarrow> dflt | Some v \<Rightarrow> v)"

section \<open>Prompt (prompt.py)\<close>

record prompt =
  name :: string
  version :: string
  template :: string
  description :: string
  author :: string
  tags :: "string list"
  variables :: "pyval dict dict"
  metadata :: "pyval dict"

definition type_map :: "string \<Rightarrow> pytype option" where
  "type_map t =
     (if t = ''str'' then Some T_str
      else if t = ''int'' then Some T_int
      else if t = ''float'' then Some T_float
      else if t = ''bool'' then Some T_bool
      else None)"

text \<open>
  \<open>type_map.get(expected_type)\<close>: the key is hashed first, so a key that cannot be
  hashed raises \<open>TypeError\<close>; any other key that is not one of the four strings gives
  \<open>None\<close>.
\<close>

fun type_map_get :: "pyval \<Rightarrow> error + pytype option" where
  "type_map_get (PStr t) = Inr (type_map t)"
| "type_map_get (PObj ob) =
     (if obj_hashable ob then Inr None else Inl (TypeError_unhashable (obj_class ob)))"
| "type_map_get v = Inr None"

text \<open>The body of the loop of \<open>Prompt._validate\<close> for one declared variable.\<close>

definition validate_var :: "prompt \<Rightarrow> pyval dict \<Rightarrow> string \<Rightarrow> pyval dict \<Rightarrow> error + unit" where
  "validate_var p kwargs var_name var_meta =
     (let required = dict_get var_meta ''required'' (PBool True);
          has_default = (map_of var_meta ''default'' \<noteq> None)
      in if truthy required \<and> \<not> has_default \<and> map_of kwargs var_name = None
         then Inl (KeyError_required var_name (name p) (version p))
         else
           let expected_type = dict_get var_meta ''type'' PNone
           in if truthy expected_type \<and> map_of kwargs var_name \<noteq> None then
                (case type_map_get expected_type of
                   Inl e \<Rightarrow> Inl e
                 | Inr None \<Rightarrow> Inr ()
                 | Inr (Some py_type) \<Rightarrow>
                     (case map_of kwargs var_name of
                        None \<Rightarrow> Inr ()
                      | Some v \<Rightarrow>
                          if \<not> isinstance v py_type
                          then Inl (TypeError_var var_name (name p)
                                      (py_str expected_type) (type_name v))
                          else Inr ()))
              else Inr ())"

fun validate_vars :: "prompt \<Rightarrow> pyval dict \<Rightarrow> pyval dict dict \<Rightarrow> error + unit" where
  "validate_vars p kwargs [] = Inr ()"
| "validate_vars p kwargs ((var_name, var_meta) # rest) =
     (case validate_var p kwargs var_name var_meta of
        Inl e \<Rightarrow> Inl e
      | Inr u \<Rightarrow> validate_vars p kwargs rest)"

definition validate :: "prompt \<Rightarrow> pyval dict \<Rightarrow> error + unit" where
  "validate p kwargs = validate_vars p kwargs (variables p)"

text \<open>The loop of \<open>Prompt._apply_defaults\<close>, with \<open>merged\<close> as the accumulator.\<close>

fun merge_declared :: "pyval dict \<Rightarrow> pyval dict dict \<Rightarrow> pyval dict \<Rightarrow> pyval dict" where
  "merge_declared kwargs [] merged = merged"
| "merge_declared kwargs ((var_name, var_meta) # rest) merged =
     merge_declared kwargs rest
       (case map_of kwargs var_name of
          Some v \<Rightarrow> dict_set merged var_name v
        | None \<Rightarrow>
            (case map_of var_meta ''default'' of
               Some d \<Rightarrow> dict_set merged var_name d
             | None \<Rightarrow> merged))"

definition apply_defaults :: "prompt \<Rightarrow> pyval dict \<Rightarrow> pyval dict" where
  "apply_defaults p kwargs =
     (let merged = merge_declared kwargs (variables p) []
      in dict_update merged (filter (\<lambda>(k, v). map_of merged k = None) kwargs))"

section \<open>Template substitution (string.Template)\<close>

text \<open>
  An identifier is \<open>[_a-zA-Z][_a-zA-Z0-9]*\<close>: the pattern is matched with the ASCII
  flag and without regard to case.
\<close>

definition is_id_start :: "char \<Rightarrow> bool" where
  "is_id_start c =
     (let n = (of_char c :: nat)
      in c = CHR ''_'' \<or> (65 \<le> n \<and> n \<le> 90) \<or> (97 \<le> n \<and> n \<le> 122))"

definition is_id_char :: "char \<Rightarrow> bool" where
  "is_id_char c = (let n = (of_char c :: nat) in is_id_start c \<or> (48 \<le> n \<and> n \<le> 57))"

text \<open>
  The pieces \<open>pattern.sub\<close> cuts a template into: a character outside every match, or a
  match of the pattern at a \<open>$\<close>, named by its group: \<open>escaped\<close> (a second \<open>$\<close>),
  \<open>named\<close> (an identifier, as long as possible), \<open>braced\<close> (an identifier in braces)
  and \<open>invalid\<close> (the \<open>$\<close> alone).
\<close>

datatype token = Text char | Escaped | Named string | Braced string | Invalid

text \<open>
  The match at a \<open>$\<close>, the groups tried in the pattern's order. The argument is the text
  after the \<open>$\<close>; the result is the match and the text after it.
\<close>

definition match_at :: "string \<Rightarrow> token \<times> string" where
  "match_at cs =
     (case cs of
        [] \<Rightarrow> (Invalid, cs)
      | d # ds \<Rightarrow>
          if d = CHR ''$'' then (Escaped, ds)
          else if is_id_start d then (Named (takeWhile is_id_char cs), dropWhile is_id_char cs)
          else if d = CHR ''{'' then
            (case (takeWhile is_id_char ds, dropWhile is_id_char ds) of
               (i # ident, e # rest) \<Rightarrow>
                 if is_id_start i \<and> e = CHR ''}'' then (Braced (i # ident), rest)
                 else (Invalid, cs)
             | _ \<Rightarrow> (Invalid, cs))
          else (Invalid, cs))"

lemma match_at_length: "match_at cs = (m, rest) \<Longrightarrow> length rest \<le> length cs"
proof -
  assume m: "match_at cs = (m, rest)"
  have d: "length (dropWhile is_id_char xs) \<le> length xs" for xs
    by (rule length_dropWhile_le)
  have "rest = cs \<or> (\<exists>d. cs = d # rest) \<or> rest = dropWhile is_id_char cs
        \<or> (\<exists>d e. cs = d # tl cs \<and> dropWhile is_id_char (tl cs) = e # rest)"
    using m by (auto simp: match_at_def split: list.splits if_splits)
  then show ?thesis
  proof (elim disjE exE conjE)
    fix d e
    assume c: "cs = d # tl cs" and r: "dropWhile is_id_char (tl cs) = e # rest"
    have "length (e # rest) \<le> length (tl cs)"
      using d [of "tl cs"] r by simp
    then show ?thesis by simp
  qed (auto simp: d)
qed

text \<open>The matches of the pattern in a template, from left to right, and the text between.\<close>

function tokens :: "string \<Rightarrow> token list" where
  "tokens [] = []"
| "tokens (c # cs) =
     (if c \<noteq> CHR ''$'' then Text c # tokens cs
      else (case match_at cs of (m, rest) \<Rightarrow> m # tokens rest))"
  by pat_completeness auto
termination
  by (relation "measure length") (auto simp: less_Suc_eq_le dest: match_at_length [OF sym])

text \<open>
  The function \<open>convert\<close> of \<open>Template.substitute\<close> applied to the matches in order. The
  first conversion that raises ends the call: \<open>KeyError\<close> for a name that \<open>mapping\<close>
  lacks, \<open>ValueError\<close> for an invalid \<open>$\<close>.
\<close>

fun convert_all :: "pyval dict \<Rightarrow> token list \<Rightarrow> error + string" where
  "convert_all mapping [] = Inr []"
| "convert_all mapping (Text c # ts) =
     (case convert_all mapping ts of Inl e \<Rightarrow> Inl e | Inr s \<Rightarrow> Inr (c # s))"
| "convert_all mapping (Escaped # ts) =
     (case convert_all mapping ts of Inl e \<Rightarrow> Inl e | Inr s \<Rightarrow> Inr (CHR ''$'' # s))"
| "convert_all mapping (Named ident # ts) =
     (case map_of mapping ident of
        None \<Rightarrow> Inl (KeyError ident)
      | Some v \<Rightarrow>
          (case convert_all mapping ts of Inl e \<Rightarrow> Inl e | Inr s \<Rightarrow> Inr (py_str v @ s)))"
| "convert_all mapping (Braced ident # ts) =
     (case map_of mapping ident of
        None \<Rightarrow> Inl (KeyError ident)
      | Some v \<Rightarrow>
          (case convert_all mapping ts of Inl e \<Rightarrow> Inl e | Inr s \<Rightarrow> Inr (py_str v @ s)))"
| "convert_all mapping (Invalid # ts) = Inl ValueError_placeholder"

definition substitute :: "pyval dict \<Rightarrow> string \<Rightarrow> error + string" where
  "substitute mapping t = convert_all mapping (tokens t)"

text \<open>
  \<open>Prompt.render(self, **kwargs)\<close>, called with the keyword arguments \<open>kwargs\<close>. The
  keyword \<open>self\<close> cannot be bound: the parameter \<open>self\<close> has its value already, and the
  call raises \<open>TypeError\<close> before the body runs. In the body only the \<open>KeyError\<close> of the
  substitution is caught; it is raised again with the prompt's name, its version and the
  declared variable names.
\<close>

definition render :: "prompt \<Rightarrow> pyval dict \<Rightarrow> error + string" where
  "render p kwargs =
     (if map_of kwargs ''self'' \<noteq> None then Inl (TypeError_multiple_values ''self'')
      else
        (case validate p kwargs of
           Inl e \<Rightarrow> Inl e
         | Inr u \<Rightarrow>
             (let merged = apply_defaults p kwargs
              in case substitute merged (template p) of
                   Inl (KeyError k) \<Rightarrow>
                     Inl (KeyError_missing k (name p) (version p) (map fst (variables p)))
                 | Inl e \<Rightarrow> Inl e
                 | Inr s \<Rightarrow> Inr s)))"

section \<open>The record store\<close>

text \<open>
  What \<open>yaml.safe_load\<close> gives for one \<open>*.yaml\<close> file: a mapping read at the keys of
  a prompt, each of which may be missing. The fields have the types \<open>Prompt\<close> declares
  for them; \<open>version\<close> is any scalar, since a YAML \<open>1.0\<close> is a float and the code turns
  it into text itself. \<open>d_others\<close> holds the remaining keys. An empty file loads as the
  empty mapping (\<open>or {}\<close>).

  The store is the list of the files \<open>glob("*.yaml")\<close> yields, in the order it yields
  them, each with its stem and its loaded document; the vault reads it anew at every call.
\<close>

record document =
  d_name :: "string option"
  d_version :: "yscalar option"
  d_template :: "string option"
  d_description :: "string option"
  d_author :: "string option"
  d_tags :: "string list option"
  d_variables :: "pyval dict dict option"
  d_others :: "pyval dict"

record yaml_file =
  stem :: string
  data :: document

section \<open>Paths and the file system\<close>

text \<open>
  A \<open>Path\<close> is the list of its parts, as \<open>Path.parts\<close> gives them on POSIX: an absolute
  path starts with the part \<open>/\<close> (or \<open>//\<close>), empty parts and \<open>.\<close> are dropped.
\<close>

fun split_sep :: "string \<Rightarrow> string list" where
  "split_sep [] = [[]]"
| "split_sep (c # cs) =
     (if c = CHR ''/'' then [] # split_sep cs
      else (case split_sep cs of [] \<Rightarrow> [[c]] | x # xs \<Rightarrow> (c # x) # xs))"

definition Path :: "string \<Rightarrow> string list" where
  "Path s =
     (let slashes = length (takeWhile (\<lambda>c. c = CHR ''/'') s);
          rel = filter (\<lambda>x. x \<noteq> [] \<and> x \<noteq> ''.'')
                  (split_sep (dropWhile (\<lambda>c. c = CHR ''/'') s))
      in if slashes = 0 then rel
         else if slashes = 2 then ''//'' # rel
         else ''/'' # rel)"

text \<open>\<open>Path.parent\<close>: the root and the empty path are their own parents.\<close>

definition parent :: "string list \<Rightarrow> string list" where
  "parent p = (if p = [] \<or> p = [''/''] \<or> p = [''//''] then p else butlast p)"

text \<open>
  The file system, as far as \<open>PromptVault\<close> touches it: the directories that exist and
  the regular files with their text. Paths are not resolved further (no links, no \<open>..\<close>).
\<close>

record filesystem =
  dirs :: "string list list"
  files :: "(string list \<times> string) list"

definition is_dir :: "filesystem \<Rightarrow> string list \<Rightarrow> bool" where
  "is_dir fs p = (p \<in> set (dirs fs))"

definition is_file :: "filesystem \<Rightarrow> string list \<Rightarrow> bool" where
  "is_file fs p = (map_of (files fs) p \<noteq> None)"

definition exists :: "filesystem \<Rightarrow> string list \<Rightarrow> bool" where
  "exists fs p = (is_dir fs p \<or> is_file fs p)"

text \<open>
  \<open>os.mkdir(p)\<close>: fails when \<open>p\<close> exists, when a regular file stands where a directory
  is needed, and when the parent directory does not exist.
\<close>

definition os_mkdir :: "filesystem \<Rightarrow> string list \<Rightarrow> error + filesystem" where
  "os_mkdir fs p =
     (if exists fs p then Inl (FileExistsError p)
      else if is_file fs (parent p) then Inl (NotADirectoryError p)
      else if \<not> is_dir fs (parent p) then Inl (FileNotFoundError p)
      else Inr (fs\<lparr>dirs := dirs fs @ [p]\<rparr>))"

text \<open>\<open>Path.mkdir(parents=False, exist_ok=True)\<close>.\<close>

definition mkdir_exist_ok :: "filesystem \<Rightarrow> string list \<Rightarrow> error + filesystem" where
  "mkdir_exist_ok fs p =
     (case os_mkdir fs p of
        Inr fs' \<Rightarrow> Inr fs'
      | Inl (FileNotFoundError q) \<Rightarrow> Inl (FileNotFoundError q)
      | Inl e \<Rightarrow> if is_dir fs p then Inr fs else Inl e)"

text \<open>\<open>Path.mkdir(parents=True, exist_ok=True)\<close>.\<close>

function mkdir_parents :: "filesystem \<Rightarrow> string list \<Rightarrow> error + filesystem" where
  "mkdir_parents fs p =
     (case os_mkdir fs p of
        Inr fs' \<Rightarrow> Inr fs'
      | Inl (FileNotFoundError q) \<Rightarrow>
          if parent p = p then Inl (FileNotFoundError q)
          else (case mkdir_parents fs (parent p) of
                  Inl e \<Rightarrow> Inl e
                | Inr fs' \<Rightarrow> mkdir_exist_ok fs' p)
      | Inl e \<Rightarrow> if is_dir fs p then Inr fs else Inl e)"
  by pat_completeness auto
termination
  by (relation "measure (\<lambda>(fs, p). length p)") (auto simp: parent_def split: if_splits)

text \<open>\<open>open(p, "a")\<close>, one \<open>write\<close> and the close: the text is appended to the file,
  which is created when it does not exist.\<close>

definition append_text :: "filesystem \<Rightarrow> string list \<Rightarrow> string \<Rightarrow> error + filesystem" where
  "append_text fs p txt =
     (if is_dir fs p then Inl (IsADirectoryError p)
      else if is_file fs (parent p) then Inl (NotADirectoryError p)
      else if \<not> is_dir fs (parent p) then Inl (FileNotFoundError p)
      else (case map_of (files fs) p of
              None \<Rightarrow> Inr (fs\<lparr>files := files fs @ [(p, txt)]\<rparr>)
            | Some old \<Rightarrow>
                Inr (fs\<lparr>files := map (\<lambda>(q, t). if q = p then (q, t @ txt) else (q, t))
                                    (files fs)\<rparr>)))"

section \<open>difflib.unified_diff\<close>

text \<open>
  The standard library's \<open>unified_diff\<close> as \<open>PromptVault.diff\<close> calls it, from
  \<open>difflib.py\<close> of Python 3.11: \<open>SequenceMatcher(None, a, b)\<close> with automatic junk
  detection, three lines of context.
\<close>

text \<open>
  \<open>SequenceMatcher.__chain_b\<close> with no junk function: \<open>b2j\<close> maps an element of \<open>b\<close> to
  the indices where it occurs, in increasing order; when \<open>b\<close> has 200 elements or more, the
  elements that occur more than \<open>len(b) // 100 + 1\<close> times are popular and lose their
  entry. \<open>b2j.get(elt, [])\<close> is \<open>b2j b elt\<close>.
\<close>

definition indices :: "'a list \<Rightarrow> 'a \<Rightarrow> nat list" where
  "indices b elt = filter (\<lambda>j. b ! j = elt) [0..<length b]"

definition popular :: "'a list \<Rightarrow> 'a \<Rightarrow> bool" where
  "popular b elt = (200 \<le> length b \<and> length b div 100 + 1 < length (indices b elt))"

definition b2j :: "'a list \<Rightarrow> 'a \<Rightarrow> nat list" where
  "b2j b elt = (if popular b elt then [] else indices b elt)"

text \<open>\<open>j2len.get(j - 1, 0)\<close>: the key \<open>-1\<close> is never there.\<close>

definition j2lenget :: "(nat \<rightharpoonup> nat) \<Rightarrow> nat \<Rightarrow> nat" where
  "j2lenget j2len j =
     (if j = 0 then 0 else case j2len (j - 1) of None \<Rightarrow> 0 | Some k \<Rightarrow> k)"

text \<open>
  The inner loop of \<open>find_longest_match\<close> at row \<open>i\<close>, over the indices \<open>j\<close> with
  \<open>a[i] == b[j]\<close>; the state is \<open>newj2len\<close> and the best match so far.
\<close>

fun row_loop ::
  "(nat \<rightharpoonup> nat) \<Rightarrow> nat \<Rightarrow> nat \<Rightarrow> nat \<Rightarrow> nat list \<Rightarrow>
   (nat \<rightharpoonup> nat) \<times> nat \<times> nat \<times> nat \<Rightarrow> (nat \<rightharpoonup> nat) \<times> nat \<times> nat \<times> nat" where
  "row_loop j2len i blo bhi [] st = st"
| "row_loop j2len i blo bhi (j # js) (newj2len, besti, bestj, bestsize) =
     (if j < blo then row_loop j2len i blo bhi js (newj2len, besti, bestj, bestsize)
      else if bhi \<le> j then (newj2len, besti, bestj, bestsize)
      else
        (let k = j2lenget j2len j + 1
         in if bestsize < k
            then row_loop j2len i blo bhi js (newj2len(j \<mapsto> k), i + 1 - k, j + 1 - k, k)
            else row_loop j2len i blo bhi js (newj2len(j \<mapsto> k), besti, bestj, bestsize)))"

text \<open>The outer loop, over the rows \<open>i\<close> of \<open>range(alo, ahi)\<close>.\<close>

fun rows_loop ::
  "'a list \<Rightarrow> 'a list \<Rightarrow> nat \<Rightarrow> nat \<Rightarrow> nat list \<Rightarrow>
   (nat \<rightharpoonup> nat) \<times> nat \<times> nat \<times> nat \<Rightarrow> (nat \<rightharpoonup> nat) \<times> nat \<times> nat \<times> nat" where
  "rows_loop a b blo bhi [] st = st"
| "rows_loop a b blo bhi (i # is) (j2len, besti, bestj, bestsize) =
     rows_loop a b blo bhi is
       (row_loop j2len i blo bhi (b2j b (a ! i)) (Map.empty, besti, bestj, bestsize))"

text \<open>
  The loops that extend the best match backwards and forwards while the elements agree;
  \<open>want\<close> is the test on junk (non-junk in the first pair of loops, junk in the second).
\<close>

function extend_back ::
  "('a \<Rightarrow> bool) \<Rightarrow> 'a list \<Rightarrow> 'a list \<Rightarrow> nat \<Rightarrow> nat \<Rightarrow> nat \<times> nat \<times> nat \<Rightarrow> nat \<times> nat \<times> nat" where
  "extend_back want a b alo blo (besti, bestj, bestsize) =
     (if alo < besti \<and> blo < bestj \<and> want (b ! (bestj - 1)) \<and> a ! (besti - 1) = b ! (bestj - 1)
      then extend_back want a b alo blo (besti - 1, bestj - 1, bestsize + 1)
      else (besti, bestj, bestsize))"
  by pat_completeness auto
termination
  by (relation "measure (\<lambda>(want, a, b, alo, blo, besti, bestj, bestsize). besti)") auto

function extend_forward ::
  "('a \<Rightarrow> bool) \<Rightarrow> 'a list \<Rightarrow> 'a list \<Rightarrow> nat \<Rightarrow> nat \<Rightarrow> nat \<times> nat \<times> nat \<Rightarrow> nat \<times> nat \<times> nat" where
  "extend_forward want a b ahi bhi (besti, bestj, bestsize) =
     (if besti + bestsize < ahi \<and> bestj + bestsize < bhi \<and> want (b ! (bestj + bestsize)) \<and>
         a ! (besti + bestsize) = b ! (bestj + bestsize)
      then extend_forward want a b ahi bhi (besti, bestj, bestsize + 1)
      else (besti, bestj, bestsize))"
  by pat_completeness auto
termination
  by (relation "measure (\<lambda>(want, a, b, ahi, bhi, besti, bestj, bestsize). ahi - (besti + bestsize))")
     auto

declare extend_back.simps [simp del] extend_forward.simps [simp del]

text \<open>\<open>SequenceMatcher.find_longest_match\<close>; without a junk function nothing is junk.\<close>

definition find_longest_match ::
  "'a list \<Rightarrow> 'a list \<Rightarrow> nat \<Rightarrow> nat \<Rightarrow> nat \<Rightarrow> nat \<Rightarrow> nat \<times> nat \<times> nat" where
  "find_longest_match a b alo ahi blo bhi =
     (let isbjunk = (\<lambda>x. False);
          (j2len, best) = rows_loop a b blo bhi [alo..<ahi] (Map.empty, alo, blo, 0);
          best = extend_back (\<lambda>x. \<not> isbjunk x) a b alo blo best;
          best = extend_forward (\<lambda>x. \<not> isbjunk x) a b ahi bhi best;
          best = extend_back isbjunk a b alo blo best;
          best = extend_forward isbjunk a b ahi bhi best
      in best)"

text \<open>
  The best match stays inside the rows \<open>alo..ahi\<close>; this bounds the loop of
  \<open>get_matching_blocks\<close>.
\<close>

definition in_range :: "nat \<Rightarrow> nat \<Rightarrow> nat \<times> nat \<times> nat \<Rightarrow> bool" where
  "in_range alo ahi best =
     (case best of (besti, bestj, bestsize) \<Rightarrow>
        (bestsize = 0 \<and> besti = alo) \<or> (alo \<le> besti \<and> besti + bestsize \<le> ahi))"

lemma j2lenget_le: "\<forall>j v. j2len j = Some v \<longrightarrow> v \<le> m \<Longrightarrow> j2lenget j2len j \<le> m"
  by (auto simp: j2lenget_def split: option.splits)

lemma row_loop_bound:
  assumes "\<forall>j v. j2len j = Some v \<longrightarrow> v \<le> i - alo" and "alo \<le> i" and "i < ahi"
    and "in_range alo ahi best" and "\<forall>j v. newj2len j = Some v \<longrightarrow> v \<le> i + 1 - alo"
    and "row_loop j2len i blo bhi js (newj2len, best) = (newj2len', best')"
  shows "in_range alo ahi best' \<and> (\<forall>j v. newj2len' j = Some v \<longrightarrow> v \<le> i + 1 - alo)"
  using assms(4-)
proof (induction js arbitrary: newj2len best)
  case Nil
  then show ?case by simp
next
  case (Cons j js)
  obtain besti bestj bestsize where best: "best = (besti, bestj, bestsize)"
    by (cases best)
  let ?k = "j2lenget j2len j + 1"
  have k: "?k \<le> i + 1 - alo"
    using j2lenget_le [OF assms(1), of j] assms(2) by simp
  have new: "\<forall>j' v. (newj2len(j \<mapsto> ?k)) j' = Some v \<longrightarrow> v \<le> i + 1 - alo"
    using Cons.prems(2) k by auto
  have upd: "in_range alo ahi (i + 1 - ?k, j + 1 - ?k, ?k)"
    using k assms(2,3) by (simp add: in_range_def)
  consider "j < blo" | "\<not> j < blo" "bhi \<le> j" | "\<not> j < blo" "\<not> bhi \<le> j" "bestsize < ?k"
    | "\<not> j < blo" "\<not> bhi \<le> j" "\<not> bestsize < ?k"
    by blast
  then show ?case
  proof cases
    case 1
    with Cons.prems(3) best
    have "row_loop j2len i blo bhi js (newj2len, best) = (newj2len', best')"
      by simp
    from Cons.IH [OF Cons.prems(1,2) this] show ?thesis .
  next
    case 2
    with Cons.prems(3) best have "newj2len' = newj2len" and "best' = best"
      by simp_all
    with Cons.prems(1,2) show ?thesis by simp
  next
    case 3
    with Cons.prems(3) best
    have "row_loop j2len i blo bhi js (newj2len(j \<mapsto> ?k), (i + 1 - ?k, j + 1 - ?k, ?k))
          = (newj2len', best')"
      by (simp add: Let_def)
    from Cons.IH [OF upd new this] show ?thesis .
  next
    case 4
    with Cons.prems(3) best
    have "row_loop j2len i blo bhi js (newj2len(j \<mapsto> ?k), best) = (newj2len', best')"
      by (simp add: Let_def)
    from Cons.IH [OF Cons.prems(1) new this] show ?thesis .
  qed
qed

lemma rows_loop_bound:
  assumes "\<forall>j v. j2len j = Some v \<longrightarrow> v \<le> i - alo" and "alo \<le> i"
    and "in_range alo ahi best"
    and "rows_loop a b blo bhi [i..<ahi] (j2len, best) = (j2len', best')"
  shows "in_range alo ahi best'"
  using assms
proof (induction "ahi - i" arbitrary: i j2len best)
  case 0
  then show ?case by simp
next
  case (Suc n)
  then have lt: "i < ahi" by simp
  obtain nj nb where row: "row_loop j2len i blo bhi (b2j b (a ! i)) (Map.empty, best) = (nj, nb)"
    by (cases "row_loop j2len i blo bhi (b2j b (a ! i)) (Map.empty, best)")
  from row_loop_bound [OF Suc.prems(1,2) lt Suc.prems(3) _ row]
  have nb: "in_range alo ahi nb" and njb: "\<forall>j v. nj j = Some v \<longrightarrow> v \<le> Suc i - alo"
    by simp_all
  obtain besti bestj bestsize where best: "best = (besti, bestj, bestsize)"
    by (cases best)
  from Suc.prems(4) lt row best
  have rest: "rows_loop a b blo bhi [Suc i..<ahi] (nj, nb) = (j2len', best')"
    by (simp add: upt_conv_Cons)
  from Suc.hyps(2) have n: "n = ahi - Suc i" by simp
  from Suc.prems(2) have le: "alo \<le> Suc i" by simp
  from Suc.hyps(1) [OF n njb le nb rest] show ?case .
qed

lemma extend_back_step:
  "alo < besti \<and> blo < bestj \<and> want (b ! (bestj - 1)) \<and> a ! (besti - 1) = b ! (bestj - 1) \<Longrightarrow>
   extend_back want a b alo blo (besti, bestj, bestsize) =
     extend_back want a b alo blo (besti - 1, bestj - 1, bestsize + 1)"
  by (subst extend_back.simps) simp

lemma extend_back_stop:
  "\<not> (alo < besti \<and> blo < bestj \<and> want (b ! (bestj - 1)) \<and>
      a ! (besti - 1) = b ! (bestj - 1)) \<Longrightarrow>
   extend_back want a b alo blo (besti, bestj, bestsize) = (besti, bestj, bestsize)"
  by (subst extend_back.simps) auto

lemma extend_forward_step:
  "besti + bestsize < ahi \<and> bestj + bestsize < bhi \<and> want (b ! (bestj + bestsize)) \<and>
   a ! (besti + bestsize) = b ! (bestj + bestsize) \<Longrightarrow>
   extend_forward want a b ahi bhi (besti, bestj, bestsize) =
     extend_forward want a b ahi bhi (besti, bestj, bestsize + 1)"
  by (subst extend_forward.simps) simp

lemma extend_forward_stop:
  "\<not> (besti + bestsize < ahi \<and> bestj + bestsize < bhi \<and> want (b ! (bestj + bestsize)) \<and>
      a ! (besti + bestsize) = b ! (bestj + bestsize)) \<Longrightarrow>
   extend_forward want a b ahi bhi (besti, bestj, bestsize) = (besti, bestj, bestsize)"
  by (subst extend_forward.simps) auto

lemma extend_back_bound:
  "in_range alo ahi best \<Longrightarrow> in_range alo ahi (extend_back want a b alo blo best)"
proof (induction want a b alo blo best rule: extend_back.induct)
  case (1 want a b alo blo besti bestj bestsize)
  show ?case
  proof (cases "alo < besti \<and> blo < bestj \<and> want (b ! (bestj - 1)) \<and>
                a ! (besti - 1) = b ! (bestj - 1)")
    case True
    with "1.prems" have "in_range alo ahi (besti - 1, bestj - 1, bestsize + 1)"
      by (auto simp: in_range_def)
    with "1.IH" True show ?thesis
      by (simp add: extend_back_step)
  next
    case False
    have "extend_back want a b alo blo (besti, bestj, bestsize) = (besti, bestj, bestsize)"
      using False by (rule extend_back_stop)
    with "1.prems" show ?thesis
      by simp
  qed
qed

lemma extend_forward_bound:
  "in_range alo ahi best \<Longrightarrow> in_range alo ahi (extend_forward want a b ahi bhi best)"
proof (induction want a b ahi bhi best rule: extend_forward.induct)
  case (1 want a b ahi bhi besti bestj bestsize)
  show ?case
  proof (cases "besti + bestsize < ahi \<and> bestj + bestsize < bhi \<and>
                want (b ! (bestj + bestsize)) \<and> a ! (besti + bestsize) = b ! (bestj + bestsize)")
    case True
    with "1.prems" have "in_range alo ahi (besti, bestj, bestsize + 1)"
      by (auto simp: in_range_def)
    with "1.IH" True show ?thesis
      by (simp add: extend_forward_step)
  next
    case False
    have "extend_forward want a b ahi bhi (besti, bestj, bestsize) = (besti, bestj, bestsize)"
      using False by (rule extend_forward_stop)
    with "1.prems" show ?thesis
      by simp
  qed
qed

lemma find_longest_match_bound:
  "in_range alo ahi (find_longest_match a b alo ahi blo bhi)"
proof -
  obtain j2len best where r: "rows_loop a b blo bhi [alo..<ahi] (Map.empty, alo, blo, 0) = (j2len, best)"
    by (cases "rows_loop a b blo bhi [alo..<ahi] (Map.empty, alo, blo, 0)")
  have "in_range alo ahi (alo, blo, 0)"
    by (simp add: in_range_def)
  from rows_loop_bound [OF _ _ this r] have "in_range alo ahi best"
    by simp
  then have "in_range alo ahi
      (extend_forward (\<lambda>x. False) a b ahi bhi
        (extend_back (\<lambda>x. False) a b alo blo
          (extend_forward (\<lambda>x. \<not> False) a b ahi bhi
            (extend_back (\<lambda>x. \<not> False) a b alo blo best))))"
    by (intro extend_back_bound extend_forward_bound)
  then show ?thesis
    by (simp add: find_longest_match_def Let_def r)
qed

text \<open>
  The loop of \<open>SequenceMatcher.get_matching_blocks\<close>. The queue is kept with its top first:
  \<open>queue.pop()\<close> takes the head, and of the two ranges appended the later one is on top.
\<close>

function match_loop ::
  "'a list \<Rightarrow> 'a list \<Rightarrow> (nat \<times> nat \<times> nat \<times> nat) list \<Rightarrow> (nat \<times> nat \<times> nat) list \<Rightarrow>
   (nat \<times> nat \<times> nat) list" where
  "match_loop a b [] matching_blocks = matching_blocks"
| "match_loop a b ((alo, ahi, blo, bhi) # queue) matching_blocks =
     (case find_longest_match a b alo ahi blo bhi of
        (i, j, k) \<Rightarrow>
          if k \<noteq> 0 then
            match_loop a b
              ((if i + k < ahi \<and> j + k < bhi then [(i + k, ahi, j + k, bhi)] else []) @
               (if alo < i \<and> blo < j then [(alo, i, blo, j)] else []) @ queue)
              (matching_blocks @ [(i, j, k)])
          else match_loop a b queue matching_blocks)"
  by pat_completeness auto
termination
proof (relation "measure (\<lambda>(a, b, queue, matching_blocks).
                   sum_list (map (\<lambda>(alo, ahi, blo, bhi). 2 * (ahi - alo) + 1) queue))",
       goal_cases)
  case 1
  show ?case by simp
next
  case (2 a b alo ahi blo bhi queue matching_blocks i y j k)
  then have "find_longest_match a b alo ahi blo bhi = (i, j, k)"
    by simp
  with find_longest_match_bound [of alo ahi a b blo bhi] 2(3)
  have "alo \<le> i \<and> i + k \<le> ahi \<and> 0 < k"
    by (simp add: in_range_def)
  then show ?case by auto
next
  case 3
  then show ?case by simp
qed

text \<open>\<open>matching_blocks.sort()\<close>: triples in lexicographic order.\<close>

definition triple_lt :: "nat \<times> nat \<times> nat \<Rightarrow> nat \<times> nat \<times> nat \<Rightarrow> bool" where
  "triple_lt x y =
     (case (x, y) of
        ((i, j, k), (i', j', k')) \<Rightarrow> i < i' \<or> (i = i' \<and> (j < j' \<or> (j = j' \<and> k < k'))))"

text \<open>The loop that merges adjacent blocks, with \<open>(i1, j1, k1)\<close> and \<open>non_adjacent\<close>.\<close>

fun collapse ::
  "(nat \<times> nat \<times> nat) list \<Rightarrow> nat \<times> nat \<times> nat \<Rightarrow> (nat \<times> nat \<times> nat) list \<Rightarrow>
   (nat \<times> nat \<times> nat) list" where
  "collapse [] (i1, j1, k1) non_adjacent =
     (if k1 \<noteq> 0 then non_adjacent @ [(i1, j1, k1)] else non_adjacent)"
| "collapse ((i2, j2, k2) # rest) (i1, j1, k1) non_adjacent =
     (if i1 + k1 = i2 \<and> j1 + k1 = j2 then collapse rest (i1, j1, k1 + k2) non_adjacent
      else collapse rest (i2, j2, k2)
             (if k1 \<noteq> 0 then non_adjacent @ [(i1, j1, k1)] else non_adjacent))"

definition get_matching_blocks :: "'a list \<Rightarrow> 'a list \<Rightarrow> (nat \<times> nat \<times> nat) list" where
  "get_matching_blocks a b =
     (let la = length a; lb = length b;
          matching_blocks = match_loop a b [(0, la, 0, lb)] [];
          sorted_blocks = foldr (insort_lt triple_lt) matching_blocks []
      in collapse sorted_blocks (0, 0, 0) [] @ [(la, lb, 0)])"

datatype tag = Replace | Delete | Insert | Equal

type_synonym opcode = "tag \<times> nat \<times> nat \<times> nat \<times> nat"

text \<open>The loop of \<open>SequenceMatcher.get_opcodes\<close>, with \<open>i\<close>, \<open>j\<close> and \<open>answer\<close>.\<close>

fun opcodes_loop :: "(nat \<times> nat \<times> nat) list \<Rightarrow> nat \<Rightarrow> nat \<Rightarrow> opcode list \<Rightarrow> opcode list" where
  "opcodes_loop [] i j answer = answer"
| "opcodes_loop ((ai, bj, sz) # rest) i j answer =
     (let answer = (if i < ai \<and> j < bj then answer @ [(Replace, i, ai, j, bj)]
                    else if i < ai then answer @ [(Delete, i, ai, j, bj)]
                    else if j < bj then answer @ [(Insert, i, ai, j, bj)]
                    else answer);
          answer = (if sz \<noteq> 0 then answer @ [(Equal, ai, ai + sz, bj, bj + sz)]
                    else answer)
      in opcodes_loop rest (ai + sz) (bj + sz) answer)"

definition get_opcodes :: "'a list \<Rightarrow> 'a list \<Rightarrow> opcode list" where
  "get_opcodes a b = opcodes_loop (get_matching_blocks a b) 0 0 []"

text \<open>
  The loop of \<open>SequenceMatcher.get_grouped_opcodes\<close>, with the current group \<open>grp\<close> and the
  groups yielded so far; at the end the last group is yielded unless it is empty or a single
  \<open>equal\<close>.
\<close>

fun group_loop :: "nat \<Rightarrow> opcode list \<Rightarrow> opcode list \<Rightarrow> opcode list list \<Rightarrow> opcode list list" where
  "group_loop n [] grp yielded =
     (if grp \<noteq> [] \<and> \<not> (length grp = 1 \<and> fst (hd grp) = Equal)
      then yielded @ [grp] else yielded)"
| "group_loop n ((tag, i1, i2, j1, j2) # codes) grp yielded =
     (if tag = Equal \<and> n + n < i2 - i1
      then group_loop n codes [(tag, max i1 (i2 - n), i2, max j1 (j2 - n), j2)]
             (yielded @ [grp @ [(tag, i1, min i2 (i1 + n), j1, min j2 (j1 + n))]])
      else group_loop n codes (grp @ [(tag, i1, i2, j1, j2)]) yielded)"

definition get_grouped_opcodes :: "nat \<Rightarrow> 'a list \<Rightarrow> 'a list \<Rightarrow> opcode list list" where
  "get_grouped_opcodes n a b =
     (let codes = get_opcodes a b;
          codes = (if codes = [] then [(Equal, 0, 1, 0, 1)] else codes);
          codes = (case hd codes of
                     (tag, i1, i2, j1, j2) \<Rightarrow>
                       if tag = Equal
                       then codes[0 := (tag, max i1 (i2 - n), i2, max j1 (j2 - n), j2)]
                       else codes);
          codes = (case last codes of
                     (tag, i1, i2, j1, j2) \<Rightarrow>
                       if tag = Equal
                       then codes[length codes - 1 :=
                                    (tag, i1, min i2 (i1 + n), j1, min j2 (j1 + n))]
                       else codes)
      in group_loop n codes [] [])"

definition format_range_unified :: "nat \<Rightarrow> nat \<Rightarrow> string" where
  "format_range_unified start stop =
     (let beginning = start + 1; len = stop - start
      in if len = 1 then digits beginning
         else digits (if len = 0 then beginning - 1 else beginning) @ '','' @ digits len)"

text \<open>\<open>xs[i:j]\<close>.\<close>

definition slice :: "'a list \<Rightarrow> nat \<Rightarrow> nat \<Rightarrow> 'a list" where
  "slice xs i j = take (j - i) (drop i xs)"

text \<open>The lines one opcode of a group contributes.\<close>

definition opcode_lines :: "string list \<Rightarrow> string list \<Rightarrow> opcode \<Rightarrow> string list" where
  "opcode_lines a b code =
     (case code of
        (tag, i1, i2, j1, j2) \<Rightarrow>
          if tag = Equal then map ((#) CHR '' '') (slice a i1 i2)
          else (if tag = Replace \<or> tag = Delete then map ((#) CHR ''-'') (slice a i1 i2) else []) @
               (if tag = Replace \<or> tag = Insert then map ((#) CHR ''+'') (slice b j1 j2) else []))"

text \<open>The hunk header and the lines of one group.\<close>

definition hunk :: "string list \<Rightarrow> string list \<Rightarrow> opcode list \<Rightarrow> string list" where
  "hunk a b grp =
     (case (hd grp, last grp) of
        ((tag1, f1, f2, f3, f4), (tag2, l1, l2, l3, l4)) \<Rightarrow>
          (''@@ -'' @ format_range_unified f1 l2 @ '' +'' @ format_range_unified f3 l4 @
           '' @@'' @ [CHR 0x0A]) #
          concat (map (opcode_lines a b) grp))"

text \<open>
  \<open>difflib.unified_diff(a, b, fromfile=..., tofile=...)\<close> with three lines of context and
  the line terminator \<open>\n\<close>; the two header lines come before the first group.
\<close>

definition unified_diff :: "string list \<Rightarrow> string list \<Rightarrow> string \<Rightarrow> string \<Rightarrow> string list" where
  "unified_diff a b fromfile tofile =
     (let groups = get_grouped_opcodes 3 a b
      in if groups = [] then []
         else (''--- '' @ fromfile @ [CHR 0x0A]) # (''+++ '' @ tofile @ [CHR 0x0A]) #
              concat (map (hunk a b) groups))"

text \<open>
  The length of the run of matching, indexed elements that ends at \<open>a[i]\<close>, \<open>b[j]\<close> when
  both sequences are \<open>xs\<close>: what \<open>j2len\<close> holds at \<open>j\<close> after row \<open>i\<close>.
\<close>

fun run :: "'a list \<Rightarrow> nat \<Rightarrow> nat \<Rightarrow> nat" where
  "run xs 0 j = (if xs ! 0 = xs ! j \<and> \<not> popular xs (xs ! 0) then 1 else 0)"
| "run xs (Suc i) 0 = (if xs ! Suc i = xs ! 0 \<and> \<not> popular xs (xs ! Suc i) then 1 else 0)"
| "run xs (Suc i) (Suc j) =
     (if xs ! Suc i = xs ! Suc j \<and> \<not> popular xs (xs ! Suc i) then run xs i j + 1 else 0)"

section \<open>PromptVault (vault.py)\<close>

record vault =
  path :: "string list"
  log_file :: "string list option"

text \<open>\<open>PromptVault.__init__\<close>: an empty \<open>log_file\<close> string counts as none.\<close>

definition PromptVault :: "filesystem \<Rightarrow> string \<Rightarrow> string option \<Rightarrow> error + vault" where
  "PromptVault fs pth lf =
     (if \<not> exists fs (Path pth) then Inl (FileNotFoundError (Path pth))
      else Inr \<lparr>path = Path pth,
               log_file = (case lf of
                             None \<Rightarrow> None
                           | Some l \<Rightarrow> if l \<noteq> [] then Some (Path l) else None)\<rparr>)"

text \<open>\<open>PromptVault._find_files\<close>: the documents whose \<open>name\<close> field is the name asked for.\<close>

definition find_files :: "yaml_file list \<Rightarrow> string \<Rightarrow> yaml_file list" where
  "find_files store nm = filter (\<lambda>f. d_name (data f) = Some nm) store"

text \<open>\<open>PromptVault.list\<close>: the set of \<open>data.get("name", f.stem)\<close>, sorted.\<close>

definition list_names :: "yaml_file list \<Rightarrow> string list" where
  "list_names store =
     foldr (insort_lt str_lt)
       (remdups (map (\<lambda>f. case d_name (data f) of None \<Rightarrow> stem f | Some n \<Rightarrow> n) store)) []"

text \<open>\<open>p["version"]\<close>.\<close>

definition version_of :: "yaml_file \<Rightarrow> error + yscalar" where
  "version_of f =
     (case d_version (data f) of None \<Rightarrow> Inl (KeyError ''version'') | Some v \<Rightarrow> Inr v)"

text \<open>\<open>[p["version"] for p in candidates]\<close>: the first missing key ends the loop.\<close>

fun version_keys :: "yaml_file list \<Rightarrow> error + yscalar list" where
  "version_keys [] = Inr []"
| "version_keys (f # fs) =
     (case version_of f of
        Inl e \<Rightarrow> Inl e
      | Inr v \<Rightarrow> (case version_keys fs of Inl e \<Rightarrow> Inl e | Inr vs \<Rightarrow> Inr (v # vs)))"

text \<open>\<open>PromptVault.versions\<close>.\<close>

definition versions :: "yaml_file list \<Rightarrow> string \<Rightarrow> error + pyval list" where
  "versions store nm =
     (case version_keys (find_files store nm) of
        Inl e \<Rightarrow> Inl e
      | Inr vs \<Rightarrow>
          (case py_sorted (\<lambda>v. v) vs of
             Inl e \<Rightarrow> Inl e
           | Inr srt \<Rightarrow> Inr (map scalar_val srt)))"

text \<open>\<open>PromptVault._parse\<close>.\<close>

definition parse :: "yaml_file \<Rightarrow> error + prompt" where
  "parse f =
     (case d_name (data f) of
        None \<Rightarrow> Inl (KeyError ''name'')
      | Some n \<Rightarrow>
          (case d_template (data f) of
             None \<Rightarrow> Inl (KeyError ''template'')
           | Some t \<Rightarrow>
               Inr \<lparr>name = n,
                    version = py_str (case d_version (data f) of
                                        None \<Rightarrow> PStr ''1.0'' | Some v \<Rightarrow> scalar_val v),
                    template = t,
                    description = (case d_description (data f) of None \<Rightarrow> [] | Some x \<Rightarrow> x),
                    author = (case d_author (data f) of None \<Rightarrow> [] | Some x \<Rightarrow> x),
                    tags = (case d_tags (data f) of None \<Rightarrow> [] | Some x \<Rightarrow> x),
                    variables = (case d_variables (data f) of None \<Rightarrow> [] | Some x \<Rightarrow> x),
                    metadata =
                      filter (\<lambda>(k, v). k \<notin> set [''name'', ''version'', ''template'',
                                ''description'', ''author'', ''tags'', ''variables'', ''_file''])
                        (d_others (data f))\<rparr>))"

text \<open>
  \<open>next((p for p in candidates if p["version"] == version), None)\<close>: the candidates are
  tried in order; a candidate without a \<open>version\<close> key met before a match raises.
\<close>

fun first_match :: "string \<Rightarrow> yaml_file list \<Rightarrow> error + yaml_file option" where
  "first_match ver [] = Inr None"
| "first_match ver (f # fs) =
     (case version_of f of
        Inl e \<Rightarrow> Inl e
      | Inr v \<Rightarrow> if v = YStr ver then Inr (Some f) else first_match ver fs)"

text \<open>\<open>PromptVault.load\<close>.\<close>

definition load :: "yaml_file list \<Rightarrow> string \<Rightarrow> string option \<Rightarrow> error + prompt" where
  "load store nm ver =
     (let candidates = find_files store nm
      in if candidates = [] then Inl (FileNotFoundError_prompt nm (list_names store))
         else
           (case ver of
              Some v \<Rightarrow>
                (case first_match v candidates of
                   Inl e \<Rightarrow> Inl e
                 | Inr None \<Rightarrow>
                     (case version_keys candidates of
                        Inl e \<Rightarrow> Inl e
                      | Inr available \<Rightarrow>
                          Inl (FileNotFoundError_version nm v (map scalar_val available)))
                 | Inr (Some m) \<Rightarrow> parse m)
            | None \<Rightarrow>
                (case version_keys candidates of
                   Inl e \<Rightarrow> Inl e
                 | Inr vs \<Rightarrow>
                     (case py_sorted (\<lambda>(v, f). v) (zip vs candidates) of
                        Inl e \<Rightarrow> Inl e
                      | Inr srt \<Rightarrow> parse (snd (last srt))))))"

text \<open>
  \<open>str.splitlines(keepends=True)\<close>. A line ends after \<open>\n\<close>, \<open>\r\<close>, \<open>\r\n\<close>, \<open>\v\<close>,
  \<open>\f\<close>, the separators \<open>\x1c\<close>, \<open>\x1d\<close>, \<open>\x1e\<close>, and \<open>\x85\<close>; \<open>cur\<close> is the line
  being read, reversed.
\<close>

definition is_linebreak :: "char \<Rightarrow> bool" where
  "is_linebreak c = ((of_char c :: nat) \<in> {10, 11, 12, 13, 28, 29, 30, 133})"

fun splitlines_from :: "string \<Rightarrow> string \<Rightarrow> string list" where
  "splitlines_from cur [] = (if cur = [] then [] else [rev cur])"
| "splitlines_from cur [c] = [rev (c # cur)]"
| "splitlines_from cur (c # d # cs) =
     (if c = CHR 0x0D \<and> d = CHR 0x0A then rev (d # c # cur) # splitlines_from [] cs
      else if is_linebreak c then rev (c # cur) # splitlines_from [] (d # cs)
      else splitlines_from (c # cur) (d # cs))"

definition splitlines :: "string \<Rightarrow> string list" where
  "splitlines s = splitlines_from [] s"

text \<open>\<open>PromptVault.diff\<close>.\<close>

definition diff :: "yaml_file list \<Rightarrow> string \<Rightarrow> string \<Rightarrow> string \<Rightarrow> error + string" where
  "diff store nm version_a version_b =
     (case load store nm (Some version_a) of
        Inl e \<Rightarrow> Inl e
      | Inr a \<Rightarrow>
          (case load store nm (Some version_b) of
             Inl e \<Rightarrow> Inl e
           | Inr b \<Rightarrow>
               (let lines_a = splitlines (template a);
                    lines_b = splitlines (template b);
                    delta = unified_diff lines_a lines_b
                              (nm @ '' v'' @ version_a) (nm @ '' v'' @ version_b);
                    joined = concat delta
                in Inr (if joined = [] then ''(no differences)'' else joined))))"

text \<open>
  \<open>PromptVault.log\<close>. The clock reading \<open>datetime.utcnow().isoformat()\<close> is the argument
  \<open>now\<close> and \<open>json.dumps\<close> is the parameter \<open>dumps\<close>. The result is the file system after
  the call.
\<close>

definition opt_str :: "string option \<Rightarrow> pyval" where
  "opt_str x = (case x of None \<Rightarrow> PNone | Some s \<Rightarrow> PStr s)"

definition log_usage ::
  "(pyval dict \<Rightarrow> string) \<Rightarrow> string \<Rightarrow> vault \<Rightarrow> string \<Rightarrow> string option \<Rightarrow> string option \<Rightarrow>
   string option \<Rightarrow> string option \<Rightarrow> pyval dict option \<Rightarrow> filesystem \<Rightarrow> error + filesystem" where
  "log_usage dumps now v nm ver rendered response model extra fs =
     (case log_file v of
        None \<Rightarrow> Inr fs
      | Some lf \<Rightarrow>
          (let record = dict_update
                 [(''timestamp'', PStr now), (''prompt'', PStr nm), (''version'', opt_str ver),
                  (''model'', opt_str model), (''rendered'', opt_str rendered),
                  (''response'', opt_str response)]
                 (case extra of None \<Rightarrow> [] | Some x \<Rightarrow> x)
           in case mkdir_parents fs (parent lf) of
                Inl e \<Rightarrow> Inl e
              | Inr fs' \<Rightarrow> append_text fs' lf (dumps record @ [CHR 0x0A])))"

section \<open>The working mapping, as specified\<close>

text \<open>
  The value the specification gives a name in the working mapping: the supplied value when
  the name is supplied, else the declared default when it has one, else none.
\<close>

definition working_value :: "prompt \<Rightarrow> pyval dict \<Rightarrow> string \<Rightarrow> pyval option" where
  "working_value p kwargs k =
     (case map_of kwargs k of
        Some v \<Rightarrow> Some v
      | None \<Rightarrow>
          (case map_of (variables p) k of
             Some var_meta \<Rightarrow> map_of var_meta ''default''
           | None \<Rightarrow> None))"

text \<open>
  The text a piece of the template stands for under a mapping \<open>w\<close> of names to values: a
  character for itself, \<open>$$\<close> for \<open>$\<close>, a placeholder for the text of its value.
\<close>

fun expand :: "(string \<Rightarrow> pyval option) \<Rightarrow> token \<Rightarrow> string" where
  "expand w (Text c) = [c]"
| "expand w Escaped = ''$''"
| "expand w (Named k) = (case w k of Some v \<Rightarrow> py_str v | None \<Rightarrow> [])"
| "expand w (Braced k) = (case w k of Some v \<Rightarrow> py_str v | None \<Rightarrow> [])"
| "expand w Invalid = []"

section \<open>Example data\<close>

text \<open>The record of the end-to-end example: a required text and a defaulted word limit.\<close>

definition summarize_prompt :: prompt where
  "summarize_prompt =
     \<lparr>name = ''summarize'', version = ''1.0'',
      template = ''Summarize in $max_words words: $text'',
      description = [], author = [], tags = [],
      variables = [(''text'', [(''required'', PBool True)]),
                   (''max_words'', [(''required'', PBool False), (''default'', PInt 100)])],
      metadata = []\<rparr>"

text \<open>
  A record with a typed variable \<open>n\<close>, its type tag left open, and an untyped required
  variable \<open>text\<close>.
\<close>

definition typed_prompt :: "string \<Rightarrow> prompt" where
  "typed_prompt tag =
     \<lparr>name = ''demo'', version = ''2.0'', template = ''$n $text'',
      description = [], author = [], tags = [],
      variables = [(''n'', [(''type'', PStr tag)]), (''text'', [])],
      metadata = []\<rparr>"

text \<open>A record whose only variable is optional, has no default and is referenced.\<close>

definition optional_prompt :: prompt where
  "optional_prompt =
     \<lparr>name = ''remark'', version = ''1.0'', template = ''Note: ${note}'',
      description = [], author = [], tags = [],
      variables = [(''note'', [(''required'', PBool False)])],
      metadata = []\<rparr>"

text \<open>A record whose template has a \<open>$\<close> that starts no placeholder.\<close>

definition stray_prompt :: prompt where
  "stray_prompt =
     \<lparr>name = ''price'', version = ''1.0'', template = ''$ $x'',
      description = [], author = [], tags = [], variables = [], metadata = []\<rparr>"

text \<open>
  A record whose variables all carry defaults; the default of the \<open>int\<close> variable is
  left open.
\<close>

definition defaulted_prompt :: "pyval \<Rightarrow> prompt" where
  "defaulted_prompt d =
     \<lparr>name = ''style'', version = ''1.0'', template = ''Be $tone, $max_words words.'',
      description = [], author = [], tags = [],
      variables = [(''tone'', [(''default'', PStr ''dry''), (''type'', PStr ''str'')]),
                   (''max_words'', [(''default'', d), (''type'', PStr ''int'')])],
      metadata = []\<rparr>"

text \<open>
  The same two variables in the other order: the required \<open>text\<close> is declared before
  the \<open>int\<close> variable \<open>n\<close>.
\<close>

definition late_typed_prompt :: prompt where
  "late_typed_prompt =
     \<lparr>name = ''demo'', version = ''2.1'', template = ''$text $n'',
      description = [], author = [], tags = [],
      variables = [(''text'', []), (''n'', [(''type'', PStr ''int'')])],
      metadata = []\<rparr>"

text \<open>The YAML sequence \<open>[1, 2]\<close>, as a type tag: a list, which cannot be hashed.\<close>

definition list_tag :: pyval where
  "list_tag =
     PObj \<lparr>obj_class = ''list'', obj_str = ''[1, 2]'', obj_truth = True, obj_hashable = False\<rparr>"

text \<open>A record with one defaulted variable \<open>n\<close>, its type tag left open.\<close>

definition tagged_prompt :: "pyval \<Rightarrow> prompt" where
  "tagged_prompt tag =
     \<lparr>name = ''count'', version = ''1.0'', template = ''$n'',
      description = [], author = [], tags = [],
      variables = [(''n'', [(''type'', tag), (''default'', PStr ''ten'')])],
      metadata = []\<rparr>"

text \<open>A record whose variable is named \<open>self\<close>, with a default and the type tag left open.\<close>

definition self_prompt :: "string \<Rightarrow> prompt" where
  "self_prompt tag =
     \<lparr>name = ''intro'', version = ''1.0'', template = ''I am $self'',
      description = [], author = [], tags = [],
      variables = [(''self'', [(''type'', PStr tag), (''default'', PStr ''me'')])],
      metadata = []\<rparr>"

text \<open>A record with a defaulted variable and a placeholder that is not declared.\<close>

definition greeting_prompt :: prompt where
  "greeting_prompt =
     \<lparr>name = ''greeting'', version = ''1.0'', template = ''Hi $who, be ${tone}.'',
      description = [], author = [], tags = [],
      variables = [(''tone'', [(''default'', PStr ''dry'')])],
      metadata = []\<rparr>"

text \<open>A store file with a template and, when given, a name and a version.\<close>

definition mk_file :: "string \<Rightarrow> string option \<Rightarrow> yscalar option \<Rightarrow> string \<Rightarrow> yaml_file" where
  "mk_file st nm ver tmpl =
     \<lparr>stem = st,
      data = \<lparr>d_name = nm, d_version = ver, d_template = Some tmpl, d_description = None,
              d_author = None, d_tags = None, d_variables = None, d_others = []\<rparr>\<rparr>"

text \<open>
  A store with two versions of one prompt, \<open>1.2\<close> and \<open>1.10\<close>, and a file without a
  \<open>name\<close> field.
\<close>

definition greet_store :: "yaml_file list" where
  "greet_store =
     [mk_file ''greet_a'' (Some ''greet'') (Some (YStr ''1.2'')) ''Hello $who'',
      mk_file ''greet_b'' (Some ''greet'') (Some (YStr ''1.10'')) ''Good day, $who'',
      mk_file ''draft'' None (Some (YStr ''0.1'')) ''To do'']"


text \<open>A file system with the working directory and a \<open>prompts\<close> directory.\<close>

definition prompts_fs :: filesystem where
  "prompts_fs = \<lparr>dirs = [[], [''prompts'']], files = []\<rparr>"

section \<open>Dictionaries: lookup after assignment\<close>

lemma map_of_dict_set: "map_of (dict_set d k v) = (map_of d)(k \<mapsto> v)"
  by (induction d) (auto simp: fun_eq_iff)

lemma map_of_dict_update:
  "distinct (map fst kvs) \<Longrightarrow> map_of (dict_update d kvs) = map_of d ++ map_of kvs"
proof (induction kvs arbitrary: d)
  case Nil
  then show ?case by simp
next
  case (Cons kv kvs)
  obtain k v where kv: "kv = (k, v)" by (cases kv)
  from Cons.prems kv have k: "k \<notin> fst ` set kvs" and d: "distinct (map fst kvs)"
    by auto
  from k have none: "map_of kvs k = None"
    by (simp add: map_of_eq_None_iff)
  have "map_of (dict_update d (kv # kvs)) = map_of (dict_set d k v) ++ map_of kvs"
    using Cons.IH [OF d] kv by simp
  also have "\<dots> = map_of d ++ map_of (kv # kvs)"
    using none kv by (auto simp: map_of_dict_set fun_eq_iff map_add_def split: option.splits)
  finally show ?case .
qed

lemma map_of_filter_key:
  "map_of (filter (\<lambda>(k, v). P k) kvs) k = (if P k then map_of kvs k else None)"
  by (induction kvs) auto

lemma distinct_filter_keys:
  "distinct (map fst kvs) \<Longrightarrow> distinct (map fst (filter P kvs))"
  by (induction kvs) auto

section \<open>The working mapping\<close>

lemma map_of_merge_declared:
  "distinct (map fst vars) \<Longrightarrow>
   map_of (merge_declared kwargs vars merged) k =
     (case map_of vars k of
        None \<Rightarrow> map_of merged k
      | Some var_meta \<Rightarrow>
          (case map_of kwargs k of
             Some v \<Rightarrow> Some v
           | None \<Rightarrow>
               (case map_of var_meta ''default'' of
                  Some d \<Rightarrow> Some d
                | None \<Rightarrow> map_of merged k)))"
proof (induction vars arbitrary: merged)
  case Nil
  then show ?case by simp
next
  case (Cons a vars)
  obtain n m where a: "a = (n, m)" by (cases a)
  from Cons.prems a have n: "map_of vars n = None" and d: "distinct (map fst vars)"
    by (auto simp: map_of_eq_None_iff)
  show ?case
    using Cons.IH [OF d] n a
    by (auto simp: map_of_dict_set split: option.splits)
qed

lemma map_of_apply_defaults:
  assumes "distinct (map fst (variables p))" and "distinct (map fst kwargs)"
  shows "map_of (apply_defaults p kwargs) k =
     (case map_of kwargs k of
        Some v \<Rightarrow> Some v
      | None \<Rightarrow>
          (case map_of (variables p) k of
             Some var_meta \<Rightarrow> map_of var_meta ''default''
           | None \<Rightarrow> None))"
proof -
  let ?merged = "merge_declared kwargs (variables p) []"
  let ?extra = "filter (\<lambda>(k, v). map_of ?merged k = None) kwargs"
  have dx: "distinct (map fst ?extra)"
    using assms(2) by (rule distinct_filter_keys)
  have "map_of (apply_defaults p kwargs) k = (map_of ?merged ++ map_of ?extra) k"
    by (simp add: apply_defaults_def Let_def map_of_dict_update [OF dx])
  also have "\<dots> = (case map_of kwargs k of
        Some v \<Rightarrow> Some v
      | None \<Rightarrow>
          (case map_of (variables p) k of
             Some var_meta \<Rightarrow> map_of var_meta ''default''
           | None \<Rightarrow> None))"
    by (simp add: map_add_def map_of_filter_key map_of_merge_declared [OF assms(1)]
        split: option.splits)
  finally show ?thesis .
qed

section \<open>Validation\<close>


lemma validate_vars_append:
  "validate_vars p kwargs (xs @ ys) =
     (case validate_vars p kwargs xs of Inl e \<Rightarrow> Inl e | Inr u \<Rightarrow> validate_vars p kwargs ys)"
  by (induction xs) (auto split: sum.splits)

lemma validate_vars_Inl:
  "validate_vars p kwargs vars = Inl e \<Longrightarrow>
   \<exists>w m. (w, m) \<in> set vars \<and> validate_var p kwargs w m = Inl e"
proof (induction vars)
  case Nil
  then show ?case by simp
next
  case (Cons a vars)
  obtain w0 m0 where a: "a = (w0, m0)" by (cases a)
  show ?case
  proof (cases "validate_var p kwargs w0 m0")
    case (Inl e')
    with Cons.prems a have "validate_var p kwargs w0 m0 = Inl e" by simp
    with a show ?thesis by auto
  next
    case (Inr u)
    with Cons.prems a have "validate_vars p kwargs vars = Inl e" by simp
    from Cons.IH [OF this] show ?thesis by auto
  qed
qed

lemma render_validate_Inl:
  "map_of kwargs ''self'' = None \<Longrightarrow> validate p kwargs = Inl e \<Longrightarrow> render p kwargs = Inl e"
  by (simp add: render_def)

lemma render_self: "map_of kwargs ''self'' \<noteq> None \<Longrightarrow>
   render p kwargs = Inl (TypeError_multiple_values ''self'')"
  by (simp add: render_def)

lemma convert_all_Inl:
  "convert_all mapping ts = Inl e \<Longrightarrow> (\<exists>k. e = KeyError k) \<or> e = ValueError_placeholder"
  by (induction mapping ts rule: convert_all.induct) (auto split: sum.splits option.splits)

lemma render_Inl_validation:
  "render p kwargs = Inl (KeyError_required v n ver) \<Longrightarrow>
   validate p kwargs = Inl (KeyError_required v n ver)"
  "render p kwargs = Inl (TypeError_var v n t a) \<Longrightarrow>
   validate p kwargs = Inl (TypeError_var v n t a)"
  by (auto simp: render_def Let_def substitute_def dest: convert_all_Inl
      split: sum.splits error.splits if_splits)

lemma validate_var_required:
  "truthy (dict_get var_meta ''required'' (PBool True)) \<Longrightarrow>
   map_of var_meta ''default'' = None \<Longrightarrow> map_of kwargs v = None \<Longrightarrow>
   validate_var p kwargs v var_meta = Inl (KeyError_required v (name p) (version p))"
  by (simp add: validate_var_def)

lemma type_map_get_Inl:
  "type_map_get x = Inl e \<Longrightarrow>
   \<exists>ob. x = PObj ob \<and> \<not> obj_hashable ob \<and> e = TypeError_unhashable (obj_class ob)"
  by (cases x) (auto split: if_splits)

lemma validate_var_KeyError_required:
  "validate_var p kwargs w m = Inl (KeyError_required v n ver) \<Longrightarrow>
   w = v \<and> truthy (dict_get m ''required'' (PBool True)) \<and> map_of m ''default'' = None"
  by (auto simp: validate_var_def Let_def split: if_splits option.splits sum.splits
      dest: type_map_get_Inl)

lemma type_map_Some:
  "type_map t = Some ty \<Longrightarrow> t \<in> {''str'', ''int'', ''float'', ''bool''}"
  by (auto simp: type_map_def split: if_splits)

lemma validate_var_TypeError:
  "validate_var p kwargs w m = Inl (TypeError_var v n t a) \<Longrightarrow>
   w = v \<and> map_of m ''type'' = Some (PStr t) \<and> t \<in> {''str'', ''int'', ''float'', ''bool''}"
proof -
  assume a: "validate_var p kwargs w m = Inl (TypeError_var v n t a)"
  then obtain ty where ty: "type_map_get (dict_get m ''type'' PNone) = Inr (Some ty)"
    and w: "w = v" and t: "t = py_str (dict_get m ''type'' PNone)"
    by (auto simp: validate_var_def Let_def split: if_splits option.splits sum.splits
        dest: type_map_get_Inl)
  from ty obtain t' where t': "dict_get m ''type'' PNone = PStr t'" and tm: "type_map t' = Some ty"
    by (cases "dict_get m ''type'' PNone") (auto split: if_splits)
  from t' have "map_of m ''type'' = Some (PStr t')"
    by (auto simp: dict_get_def split: option.splits)
  with w t t' type_map_Some [OF tm] show ?thesis by simp
qed

lemma validate_var_int_str:
  "map_of var_meta ''type'' = Some (PStr ''int'') \<Longrightarrow> map_of kwargs v = Some (PStr s) \<Longrightarrow>
   validate_var p kwargs v var_meta = Inl (TypeError_var v (name p) ''int'' ''str'')"
  by (simp add: validate_var_def dict_get_def type_map_def)

lemma validate_var_result:
  "validate_var p kwargs w m = Inl e \<Longrightarrow>
   e = KeyError_required w (name p) (version p) \<or>
   (\<exists>t a. e = TypeError_var w (name p) t a) \<or>
   (\<exists>ob. dict_get m ''type'' PNone = PObj ob \<and> obj_truth ob \<and> \<not> obj_hashable ob \<and>
         e = TypeError_unhashable (obj_class ob))"
proof -
  assume a: "validate_var p kwargs w m = Inl e"
  show ?thesis
  proof (cases "dict_get m ''type'' PNone")
    case (PObj ob)
    with a show ?thesis
      by (auto simp: validate_var_def Let_def split: if_splits option.splits sum.splits)
  qed (use a in \<open>auto simp: validate_var_def Let_def split: if_splits option.splits sum.splits\<close>)
qed

text \<open>
  Claim C3, as the code has it. Let a declared variable be required (\<open>required\<close> true
  or not given), have no default and be absent from the supplied mapping, which the call
  can bind (it has no key \<open>self\<close>). Then \<open>render\<close> fails in the validation step: when
  every variable declared before it passes validation, with the missing-variable error
  naming that variable; otherwise with the validation error of the first earlier variable
  that fails. Conversely, a declared variable that has a default or whose \<open>required\<close> is
  false never gets the validation-step missing-variable error (the declared names being
  distinct).
\<close>

theorem missing_required_variable:
  assumes "variables p = pre @ (v, var_meta) # post"
  shows "(truthy (dict_get var_meta ''required'' (PBool True)) \<and>
          map_of var_meta ''default'' = None \<and> map_of kwargs v = None \<and>
          map_of kwargs ''self'' = None \<longrightarrow>
            (validate_vars p kwargs pre = Inr () \<longrightarrow>
               render p kwargs = Inl (KeyError_required v (name p) (version p))) \<and>
            (\<forall>e. validate_vars p kwargs pre = Inl e \<longrightarrow> render p kwargs = Inl e)) \<and>
         ((map_of var_meta ''default'' \<noteq> None \<or>
           \<not> truthy (dict_get var_meta ''required'' (PBool True))) \<and>
          distinct (map fst (variables p)) \<longrightarrow>
            (\<forall>n ver. render p kwargs \<noteq> Inl (KeyError_required v n ver)))"
proof (intro conjI impI allI)
  assume h: "truthy (dict_get var_meta ''required'' (PBool True)) \<and>
          map_of var_meta ''default'' = None \<and> map_of kwargs v = None \<and>
          map_of kwargs ''self'' = None"
    and "validate_vars p kwargs pre = Inr ()"
  then have "validate p kwargs = Inl (KeyError_required v (name p) (version p))"
    using assms by (simp add: validate_def validate_vars_append validate_var_required)
  with h show "render p kwargs = Inl (KeyError_required v (name p) (version p))"
    by (simp add: render_validate_Inl)
next
  fix e
  assume h: "truthy (dict_get var_meta ''required'' (PBool True)) \<and>
          map_of var_meta ''default'' = None \<and> map_of kwargs v = None \<and>
          map_of kwargs ''self'' = None"
    and "validate_vars p kwargs pre = Inl e"
  then have "validate p kwargs = Inl e"
    using assms by (simp add: validate_def validate_vars_append)
  with h show "render p kwargs = Inl e"
    by (simp add: render_validate_Inl)
next
  fix n ver
  assume h: "(map_of var_meta ''default'' \<noteq> None \<or>
              \<not> truthy (dict_get var_meta ''required'' (PBool True))) \<and>
             distinct (map fst (variables p))"
  show "render p kwargs \<noteq> Inl (KeyError_required v n ver)"
  proof
    assume "render p kwargs = Inl (KeyError_required v n ver)"
    then have "validate_vars p kwargs (variables p) = Inl (KeyError_required v n ver)"
      by (auto dest: render_Inl_validation simp: validate_def)
    then obtain w m where mem: "(w, m) \<in> set (variables p)"
      and vv: "validate_var p kwargs w m = Inl (KeyError_required v n ver)"
      by (blast dest: validate_vars_Inl)
    from validate_var_KeyError_required [OF vv]
    have w: "w = v" and req: "truthy (dict_get m ''required'' (PBool True))"
      and nd: "map_of m ''default'' = None"
      by simp_all
    have "map_of (variables p) v = Some m"
      using h mem w by simp
    moreover have "(v, var_meta) \<in> set (variables p)"
      using assms by simp
    then have "map_of (variables p) v = Some var_meta"
      using h by simp
    ultimately have "m = var_meta" by simp
    with req nd h show False by simp
  qed
qed

theorem missing_required_variable_witness:
  "render summarize_prompt [] = Inl (KeyError_required ''text'' ''summarize'' ''1.0'') \<and>
   render summarize_prompt [(''text'', PStr ''X'')] \<noteq>
     Inl (KeyError_required ''max_words'' ''summarize'' ''1.0'')"
proof -
  have v1: "variables summarize_prompt =
      [] @ (''text'', [(''required'', PBool True)]) #
        [(''max_words'', [(''required'', PBool False), (''default'', PInt 100)])]"
    by (simp add: summarize_prompt_def)
  have h1: "truthy (dict_get [(''required'', PBool True)] ''required'' (PBool True)) \<and>
      map_of [(''required'', PBool True)] ''default'' = None \<and> map_of [] ''text'' = None \<and>
      map_of [] ''self'' = None"
    by (simp add: dict_get_def)
  have pre: "validate_vars summarize_prompt [] [] = Inr ()"
    by simp
  from missing_required_variable [OF v1, of "[]"] h1 pre
  have a: "render summarize_prompt [] =
      Inl (KeyError_required ''text'' (name summarize_prompt) (version summarize_prompt))"
    by blast
  have v2: "variables summarize_prompt =
      [(''text'', [(''required'', PBool True)])] @
        (''max_words'', [(''required'', PBool False), (''default'', PInt 100)]) # []"
    by (simp add: summarize_prompt_def)
  have h2: "(map_of [(''required'', PBool False), (''default'', PInt 100)] ''default'' \<noteq> None \<or>
       \<not> truthy (dict_get [(''required'', PBool False), (''default'', PInt 100)]
              ''required'' (PBool True))) \<and>
      distinct (map fst (variables summarize_prompt))"
    by (simp add: summarize_prompt_def)
  from missing_required_variable [OF v2, of "[(''text'', PStr ''X'')]"] h2
  have b: "render summarize_prompt [(''text'', PStr ''X'')] \<noteq>
      Inl (KeyError_required ''max_words'' ''summarize'' ''1.0'')"
    by blast
  from a b show ?thesis
    by (simp add: summarize_prompt_def)
qed

text \<open>
  The claim as stated fails: \<open>text\<close> is required, has no default and is absent, yet the
  error is the type error of the variable \<open>n\<close> declared before it. And when the keyword
  \<open>self\<close> is supplied, the call raises before the required \<open>text\<close> is missed.
\<close>

theorem missing_required_variable_counterexample:
  "map_of (variables (typed_prompt ''int'')) ''text'' = Some [] \<and>
   map_of [(''n'', PStr ''five'')] ''text'' = None \<and>
   render (typed_prompt ''int'') [(''n'', PStr ''five'')] =
     Inl (TypeError_var ''n'' ''demo'' ''int'' ''str'') \<and>
   render summarize_prompt [(''self'', PInt 1)] = Inl (TypeError_multiple_values ''self'')"
  by code_simp

text \<open>
  Claim C2, as the code has it. The type tags the code knows are \<open>str\<close>, \<open>int\<close>,
  \<open>float\<close> and \<open>bool\<close>. Let a variable be declared with the tag \<open>int\<close> and supplied as
  a string. A call that supplies the keyword \<open>self\<close>, as it must when the variable itself
  is named \<open>self\<close>, fails before validation with the \<open>TypeError\<close> of the call. Every other
  call fails in the validation step: when every variable declared before it passes
  validation, with the type error naming the variable, the tag \<open>int\<close> and the runtime type
  \<open>str\<close>; otherwise with the validation error of the first earlier variable that fails.
\<close>

theorem int_tag_rejects_text:
  assumes "variables p = pre @ (v, var_meta) # post"
    and "map_of var_meta ''type'' = Some (PStr ''int'')"
    and "map_of kwargs v = Some (PStr s)"
  shows "(map_of kwargs ''self'' = None \<longrightarrow>
            (validate_vars p kwargs pre = Inr () \<longrightarrow>
               render p kwargs = Inl (TypeError_var v (name p) ''int'' ''str'')) \<and>
            (\<forall>e. validate_vars p kwargs pre = Inl e \<longrightarrow> render p kwargs = Inl e)) \<and>
         (map_of kwargs ''self'' \<noteq> None \<longrightarrow>
            render p kwargs = Inl (TypeError_multiple_values ''self''))"
proof (intro conjI impI allI)
  assume b: "map_of kwargs ''self'' = None" and "validate_vars p kwargs pre = Inr ()"
  then have "validate p kwargs = Inl (TypeError_var v (name p) ''int'' ''str'')"
    using assms by (simp add: validate_def validate_vars_append validate_var_int_str)
  with b show "render p kwargs = Inl (TypeError_var v (name p) ''int'' ''str'')"
    by (simp add: render_validate_Inl)
next
  fix e
  assume b: "map_of kwargs ''self'' = None" and "validate_vars p kwargs pre = Inl e"
  then have "validate p kwargs = Inl e"
    using assms(1) by (simp add: validate_def validate_vars_append)
  with b show "render p kwargs = Inl e"
    by (simp add: render_validate_Inl)
next
  assume "map_of kwargs ''self'' \<noteq> None"
  then show "render p kwargs = Inl (TypeError_multiple_values ''self'')"
    by (rule render_self)
qed

theorem int_tag_rejects_text_witness:
  "render (typed_prompt ''int'') [(''n'', PStr ''five''), (''text'', PStr ''X'')] =
     Inl (TypeError_var ''n'' ''demo'' ''int'' ''str'') \<and>
   render (self_prompt ''int'') [(''self'', PStr ''five'')] =
     Inl (TypeError_multiple_values ''self'')"
proof -
  have v: "variables (typed_prompt ''int'') =
      [] @ (''n'', [(''type'', PStr ''int'')]) # [(''text'', [])]"
    by (simp add: typed_prompt_def)
  have t: "map_of [(''type'', PStr ''int'')] ''type'' = Some (PStr ''int'')"
    by simp
  have k: "map_of [(''n'', PStr ''five''), (''text'', PStr ''X'')] ''n'' = Some (PStr ''five'')"
    by simp
  have b: "map_of [(''n'', PStr ''five''), (''text'', PStr ''X'')] ''self'' = None"
    by simp
  have pre: "validate_vars (typed_prompt ''int'')
      [(''n'', PStr ''five''), (''text'', PStr ''X'')] [] = Inr ()"
    by simp
  from int_tag_rejects_text [OF v t k] b pre
  have one: "render (typed_prompt ''int'') [(''n'', PStr ''five''), (''text'', PStr ''X'')] =
      Inl (TypeError_var ''n'' (name (typed_prompt ''int'')) ''int'' ''str'')"
    by blast
  have v': "variables (self_prompt ''int'') =
      [] @ (''self'', [(''type'', PStr ''int''), (''default'', PStr ''me'')]) # []"
    by (simp add: self_prompt_def)
  have t': "map_of [(''type'', PStr ''int''), (''default'', PStr ''me'')] ''type'' =
      Some (PStr ''int'')"
    by simp
  have k': "map_of [(''self'', PStr ''five'')] ''self'' = Some (PStr ''five'')"
    by simp
  from int_tag_rejects_text [OF v' t' k']
  have two: "render (self_prompt ''int'') [(''self'', PStr ''five'')] =
      Inl (TypeError_multiple_values ''self'')"
    by simp
  from one two show ?thesis
    by (simp add: typed_prompt_def)
qed

text \<open>
  The claim as stated fails three ways. With the tag \<open>integer\<close> a string value passes
  validation and is rendered. With the tag \<open>int\<close>, a required variable declared before
  and left out gets its missing-variable error first. And a variable named \<open>self\<close> cannot
  be supplied at all: the call raises before any type is checked.
\<close>

theorem int_tag_rejects_text_counterexample:
  "render (typed_prompt ''integer'') [(''n'', PStr ''five''), (''text'', PStr ''X'')] =
     Inr ''five X'' \<and>
   render late_typed_prompt [(''n'', PStr ''five'')] =
     Inl (KeyError_required ''text'' ''demo'' ''2.1'') \<and>
   render (self_prompt ''integer'') [(''self'', PStr ''five'')] =
     Inl (TypeError_multiple_values ''self'')"
  by code_simp

text \<open>
  Claim C9, as the code has it. Let the type tag of a declared variable be none of the
  strings \<open>str\<close>, \<open>int\<close>, \<open>float\<close>, \<open>bool\<close> (another string, not a string, or not
  given), and not a true object that cannot be hashed (a non-empty YAML list or mapping).
  Then no type is checked for that variable: \<open>render\<close> never raises the type-mismatch
  error for it, and its validation raises nothing but, possibly, the missing-variable error,
  whatever is supplied.
\<close>

theorem unknown_type_tag_unchecked:
  assumes "distinct (map fst (variables p))"
    and "map_of (variables p) v = Some var_meta"
    and "map_of var_meta ''type'' \<notin>
           {Some (PStr ''str''), Some (PStr ''int''), Some (PStr ''float''), Some (PStr ''bool'')}"
    and "\<forall>ob. map_of var_meta ''type'' = Some (PObj ob) \<longrightarrow> obj_truth ob \<longrightarrow> obj_hashable ob"
  shows "render p kwargs \<noteq> Inl (TypeError_var v n t a) \<and>
         (validate_var p kwargs v var_meta = Inr () \<or>
          validate_var p kwargs v var_meta = Inl (KeyError_required v (name p) (version p)))"
proof
  show "render p kwargs \<noteq> Inl (TypeError_var v n t a)"
  proof
    assume "render p kwargs = Inl (TypeError_var v n t a)"
    then have "validate_vars p kwargs (variables p) = Inl (TypeError_var v n t a)"
      by (auto dest: render_Inl_validation simp: validate_def)
    then obtain w m where mem: "(w, m) \<in> set (variables p)"
      and vv: "validate_var p kwargs w m = Inl (TypeError_var v n t a)"
      by (blast dest: validate_vars_Inl)
    from validate_var_TypeError [OF vv]
    have w: "w = v" and ty: "map_of m ''type'' = Some (PStr t)"
      and t: "t \<in> {''str'', ''int'', ''float'', ''bool''}"
      by simp_all
    have "map_of (variables p) v = Some m"
      using assms(1) mem w by simp
    with assms(2) have "m = var_meta" by simp
    with ty t assms(3) show False by auto
  qed
  show "validate_var p kwargs v var_meta = Inr () \<or>
        validate_var p kwargs v var_meta = Inl (KeyError_required v (name p) (version p))"
  proof (cases "validate_var p kwargs v var_meta")
    case (Inr u)
    then show ?thesis by simp
  next
    case (Inl e)
    from validate_var_result [OF Inl]
    consider "e = KeyError_required v (name p) (version p)"
      | t' a' where "e = TypeError_var v (name p) t' a'"
      | ob where "dict_get var_meta ''type'' PNone = PObj ob" "obj_truth ob" "\<not> obj_hashable ob"
      by blast
    then show ?thesis
    proof cases
      case 1
      with Inl show ?thesis by simp
    next
      case 2
      with Inl have "validate_var p kwargs v var_meta = Inl (TypeError_var v (name p) t' a')"
        by simp
      from validate_var_TypeError [OF this] assms(3) show ?thesis by auto
    next
      case 3
      then have "map_of var_meta ''type'' = Some (PObj ob)"
        by (auto simp: dict_get_def split: option.splits)
      with assms(4) 3 show ?thesis by blast
    qed
  qed
qed

theorem unknown_type_tag_unchecked_witness:
  "render (typed_prompt ''integer'') [(''n'', PStr ''five''), (''text'', PStr ''X'')] \<noteq>
     Inl (TypeError_var ''n'' ''demo'' ''integer'' ''str'')"
proof -
  have d: "distinct (map fst (variables (typed_prompt ''integer'')))"
    by (simp add: typed_prompt_def)
  have m: "map_of (variables (typed_prompt ''integer'')) ''n'' = Some [(''type'', PStr ''integer'')]"
    by (simp add: typed_prompt_def)
  have t: "map_of [(''type'', PStr ''integer'')] ''type'' \<notin>
      {Some (PStr ''str''), Some (PStr ''int''), Some (PStr ''float''), Some (PStr ''bool'')}"
    by simp
  have h: "\<forall>ob. map_of [(''type'', PStr ''integer'')] ''type'' = Some (PObj ob) \<longrightarrow>
      obj_truth ob \<longrightarrow> obj_hashable ob"
    by simp
  from unknown_type_tag_unchecked [OF d m t h] show ?thesis
    by blast
qed

text \<open>
  The claim as stated fails: the tag \<open>[1, 2]\<close> is none of the four strings, yet with the
  variable supplied the lookup of the tag raises \<open>TypeError\<close>, since a list cannot be
  hashed. And a variable named \<open>self\<close> cannot be supplied without the \<open>TypeError\<close> of
  the call.
\<close>

theorem unknown_type_tag_unchecked_counterexample:
  "map_of [(''type'', list_tag), (''default'', PStr ''ten'')] ''type'' \<notin>
     {Some (PStr ''str''), Some (PStr ''int''), Some (PStr ''float''), Some (PStr ''bool'')} \<and>
   render (tagged_prompt list_tag) [(''n'', PInt 10)] = Inl (TypeError_unhashable ''list'') \<and>
   render (self_prompt ''integer'') [(''self'', PInt 10)] =
     Inl (TypeError_multiple_values ''self'')"
  by code_simp

section \<open>Substitution\<close>

lemma convert_all_missing:
  assumes "Invalid \<notin> set pre" and "tok = Named k \<or> tok = Braced k"
    and "map_of mapping k = None"
  shows "\<exists>k'. (Named k' \<in> set (pre @ [tok]) \<or> Braced k' \<in> set (pre @ [tok])) \<and>
           map_of mapping k' = None \<and>
           convert_all mapping (pre @ tok # post) = Inl (KeyError k')"
  using assms(1)
proof (induction pre)
  case Nil
  from assms(2,3) show ?case by auto
next
  case (Cons t pre)
  then obtain k' where k': "Named k' \<in> set (pre @ [tok]) \<or> Braced k' \<in> set (pre @ [tok])"
    "map_of mapping k' = None" "convert_all mapping (pre @ tok # post) = Inl (KeyError k')"
    by auto
  from Cons.prems have ni: "t \<noteq> Invalid" by auto
  show ?case
  proof (cases t)
    case (Text c)
    with k' show ?thesis by auto
  next
    case Escaped
    with k' show ?thesis by auto
  next
    case (Named i)
    show ?thesis
    proof (cases "map_of mapping i")
      case None
      with Named show ?thesis by auto
    next
      case (Some v)
      with Named k' show ?thesis by auto
    qed
  next
    case (Braced i)
    show ?thesis
    proof (cases "map_of mapping i")
      case None
      with Braced show ?thesis by auto
    next
      case (Some v)
      with Braced k' show ?thesis by auto
    qed
  next
    case Invalid
    with ni show ?thesis by simp
  qed
qed

lemma render_substitute_KeyError:
  "map_of kwargs ''self'' = None \<Longrightarrow> validate p kwargs = Inr () \<Longrightarrow>
   substitute (apply_defaults p kwargs) (template p) = Inl (KeyError k) \<Longrightarrow>
   render p kwargs = Inl (KeyError_missing k (name p) (version p) (map fst (variables p)))"
  by (simp add: render_def)

lemma validate_var_optional:
  "\<not> truthy (dict_get var_meta ''required'' (PBool True)) \<Longrightarrow> map_of kwargs v = None \<Longrightarrow>
   validate_var p kwargs v var_meta = Inr ()"
  by (simp add: validate_var_def)

text \<open>
  Claim C4, as the code has it. Let the call have bound its keywords (none is \<open>self\<close>)
  and validation have passed, and let the template hold a placeholder (\<open>$name\<close> or
  \<open>${name}\<close>) whose name is absent from the working mapping, with no ill-formed \<open>$\<close>
  before it. Then \<open>render\<close> fails with the missing-variable
  error of the substitution step, which names an absent placeholder at or before that one
  and carries the prompt's name, its version and all declared variable names. In particular
  a declared variable with \<open>required\<close> false and no default, absent from the supplied
  mapping and referenced in this way, passes its validation and fails like that.
\<close>

theorem missing_placeholder:
  assumes "validate p kwargs = Inr ()"
    and "map_of kwargs ''self'' = None"
    and "tokens (template p) = pre @ tok # post"
    and "tok = Named k \<or> tok = Braced k"
    and "Invalid \<notin> set pre"
  shows "(map_of (apply_defaults p kwargs) k = None \<longrightarrow>
            (\<exists>k'. (Named k' \<in> set (pre @ [tok]) \<or> Braced k' \<in> set (pre @ [tok])) \<and>
                   map_of (apply_defaults p kwargs) k' = None \<and>
                   render p kwargs =
                     Inl (KeyError_missing k' (name p) (version p) (map fst (variables p))))) \<and>
         (\<forall>var_meta.
            distinct (map fst (variables p)) \<and> distinct (map fst kwargs) \<and>
            map_of (variables p) k = Some var_meta \<and>
            \<not> truthy (dict_get var_meta ''required'' (PBool True)) \<and>
            map_of var_meta ''default'' = None \<and> map_of kwargs k = None \<longrightarrow>
              validate_var p kwargs k var_meta = Inr () \<and>
              (\<exists>k'. (Named k' \<in> set (pre @ [tok]) \<or> Braced k' \<in> set (pre @ [tok])) \<and>
                     map_of (apply_defaults p kwargs) k' = None \<and>
                     render p kwargs =
                       Inl (KeyError_missing k' (name p) (version p) (map fst (variables p)))))"
proof -
  have main: "\<exists>k'. (Named k' \<in> set (pre @ [tok]) \<or> Braced k' \<in> set (pre @ [tok])) \<and>
                   map_of (apply_defaults p kwargs) k' = None \<and>
                   render p kwargs =
                     Inl (KeyError_missing k' (name p) (version p) (map fst (variables p)))"
    if absent: "map_of (apply_defaults p kwargs) k = None"
  proof -
    from convert_all_missing [OF assms(5) assms(4) absent, of post]
    obtain k' where k': "Named k' \<in> set (pre @ [tok]) \<or> Braced k' \<in> set (pre @ [tok])"
      "map_of (apply_defaults p kwargs) k' = None"
      "convert_all (apply_defaults p kwargs) (pre @ tok # post) = Inl (KeyError k')"
      by blast
    from k'(3) assms(3)
    have "substitute (apply_defaults p kwargs) (template p) = Inl (KeyError k')"
      by (simp add: substitute_def)
    from render_substitute_KeyError [OF assms(2) assms(1) this] k'(1,2) show ?thesis
      by blast
  qed
  show ?thesis
  proof (intro conjI impI allI)
    assume "map_of (apply_defaults p kwargs) k = None"
    then show "\<exists>k'. (Named k' \<in> set (pre @ [tok]) \<or> Braced k' \<in> set (pre @ [tok])) \<and>
                   map_of (apply_defaults p kwargs) k' = None \<and>
                   render p kwargs =
                     Inl (KeyError_missing k' (name p) (version p) (map fst (variables p)))"
      by (rule main)
  next
    fix var_meta
    assume h: "distinct (map fst (variables p)) \<and> distinct (map fst kwargs) \<and>
            map_of (variables p) k = Some var_meta \<and>
            \<not> truthy (dict_get var_meta ''required'' (PBool True)) \<and>
            map_of var_meta ''default'' = None \<and> map_of kwargs k = None"
    then show "validate_var p kwargs k var_meta = Inr ()"
      by (simp add: validate_var_optional)
    from h have "map_of (apply_defaults p kwargs) k = None"
      by (simp add: map_of_apply_defaults)
    then show "\<exists>k'. (Named k' \<in> set (pre @ [tok]) \<or> Braced k' \<in> set (pre @ [tok])) \<and>
                   map_of (apply_defaults p kwargs) k' = None \<and>
                   render p kwargs =
                     Inl (KeyError_missing k' (name p) (version p) (map fst (variables p)))"
      by (rule main)
  qed
qed


theorem missing_placeholder_witness:
  "validate_var optional_prompt [] ''note'' [(''required'', PBool False)] = Inr () \<and>
   render optional_prompt [] = Inl (KeyError_missing ''note'' ''remark'' ''1.0'' [''note''])"
proof -
  have v: "validate optional_prompt [] = Inr ()"
    by code_simp
  have t: "tokens (template optional_prompt) = map Text ''Note: '' @ Braced ''note'' # []"
    by code_simp
  have k: "Braced ''note'' = Named ''note'' \<or> Braced ''note'' = Braced ''note''"
    by simp
  have i: "Invalid \<notin> set (map Text ''Note: '')"
    by simp
  have b: "map_of ([] :: pyval dict) ''self'' = None"
    by simp
  have h: "distinct (map fst (variables optional_prompt)) \<and> distinct (map fst []) \<and>
      map_of (variables optional_prompt) ''note'' = Some [(''required'', PBool False)] \<and>
      \<not> truthy (dict_get [(''required'', PBool False)] ''required'' (PBool True)) \<and>
      map_of [(''required'', PBool False)] ''default'' = None \<and> map_of [] ''note'' = None"
    by (simp add: optional_prompt_def dict_get_def)
  from missing_placeholder [OF v b t k i] h
  have a: "validate_var optional_prompt [] ''note'' [(''required'', PBool False)] = Inr ()"
    and "\<exists>k'. (Named k' \<in> set (map Text ''Note: '' @ [Braced ''note'']) \<or>
               Braced k' \<in> set (map Text ''Note: '' @ [Braced ''note''])) \<and>
              map_of (apply_defaults optional_prompt []) k' = None \<and>
              render optional_prompt [] =
                Inl (KeyError_missing k' (name optional_prompt) (version optional_prompt)
                       (map fst (variables optional_prompt)))"
    by blast+
  then obtain k' where
    "Named k' \<in> set (map Text ''Note: '' @ [Braced ''note'']) \<or>
     Braced k' \<in> set (map Text ''Note: '' @ [Braced ''note''])"
    and r: "render optional_prompt [] =
          Inl (KeyError_missing k' (name optional_prompt) (version optional_prompt)
                 (map fst (variables optional_prompt)))"
    by blast
  then have "k' = ''note''" by auto
  with r a show ?thesis
    by (simp add: optional_prompt_def)
qed


text \<open>
  The claim as stated fails: validation passes and the placeholder \<open>$x\<close> has no value,
  yet the ill-formed \<open>$\<close> before it makes the substitution raise \<open>ValueError\<close>, which
  \<open>render\<close> does not catch. And the optional variable \<open>note\<close>, without a default,
  absent and referenced, does not get the missing-variable error when the keyword \<open>self\<close>
  is supplied: the call raises first.
\<close>

theorem missing_placeholder_counterexample:
  "validate stray_prompt [] = Inr () \<and>
   tokens (template stray_prompt) = [Invalid, Text CHR '' '', Named ''x''] \<and>
   map_of (apply_defaults stray_prompt []) ''x'' = None \<and>
   render stray_prompt [] = Inl ValueError_placeholder \<and>
   render optional_prompt [(''self'', PInt 1)] = Inl (TypeError_multiple_values ''self'')"
  by code_simp

section \<open>Rendering from the working mapping\<close>

lemma convert_all_expand:
  "Invalid \<notin> set ts \<Longrightarrow>
   \<forall>x. Named x \<in> set ts \<or> Braced x \<in> set ts \<longrightarrow> map_of mapping x \<noteq> None \<Longrightarrow>
   convert_all mapping ts = Inr (concat (map (expand (map_of mapping)) ts))"
proof (induction ts)
  case Nil
  then show ?case by simp
next
  case (Cons t ts)
  then have ih: "convert_all mapping ts = Inr (concat (map (expand (map_of mapping)) ts))"
    by auto
  show ?case
  proof (cases t)
    case (Text c)
    with ih show ?thesis by simp
  next
    case Escaped
    with ih show ?thesis by simp
  next
    case (Named k)
    with Cons.prems(2) obtain v where "map_of mapping k = Some v" by auto
    with Named ih show ?thesis by simp
  next
    case (Braced k)
    with Cons.prems(2) obtain v where "map_of mapping k = Some v" by auto
    with Braced ih show ?thesis by simp
  next
    case Invalid
    with Cons.prems(1) show ?thesis by simp
  qed
qed

text \<open>
  Claim C5. The working mapping of \<open>_apply_defaults\<close> holds, for every key, the supplied
  value when the key is supplied; otherwise the declared default when the key is a declared
  variable with a default; otherwise nothing. So a supplied value takes precedence over a
  default, and a supplied key that is not declared is in the mapping too. It is the mapping
  the substitution uses: when the call binds its keywords, validation passes, the template
  has no ill-formed \<open>$\<close> and every placeholder has a value in that mapping, \<open>render\<close>
  returns the template with each placeholder, declared or not, replaced by the text of that
  value. Both dictionaries have distinct keys, as dictionaries do.
\<close>

theorem apply_defaults_lookup:
  assumes "distinct (map fst (variables p))" and "distinct (map fst kwargs)"
  shows "map_of (apply_defaults p kwargs) k =
     (case map_of kwargs k of
        Some v \<Rightarrow> Some v
      | None \<Rightarrow>
          (case map_of (variables p) k of
             Some var_meta \<Rightarrow> map_of var_meta ''default''
           | None \<Rightarrow> None)) \<and>
     (map_of kwargs ''self'' = None \<and> validate p kwargs = Inr () \<and>
      Invalid \<notin> set (tokens (template p)) \<and>
      (\<forall>x. Named x \<in> set (tokens (template p)) \<or> Braced x \<in> set (tokens (template p)) \<longrightarrow>
           working_value p kwargs x \<noteq> None) \<longrightarrow>
        render p kwargs =
          Inr (concat (map (expand (working_value p kwargs)) (tokens (template p)))))"
proof
  show "map_of (apply_defaults p kwargs) k =
     (case map_of kwargs k of
        Some v \<Rightarrow> Some v
      | None \<Rightarrow>
          (case map_of (variables p) k of
             Some var_meta \<Rightarrow> map_of var_meta ''default''
           | None \<Rightarrow> None))"
    using assms by (rule map_of_apply_defaults)
  have w: "map_of (apply_defaults p kwargs) = working_value p kwargs"
    by (rule ext) (simp add: working_value_def map_of_apply_defaults [OF assms])
  show "map_of kwargs ''self'' = None \<and> validate p kwargs = Inr () \<and>
      Invalid \<notin> set (tokens (template p)) \<and>
      (\<forall>x. Named x \<in> set (tokens (template p)) \<or> Braced x \<in> set (tokens (template p)) \<longrightarrow>
           working_value p kwargs x \<noteq> None) \<longrightarrow>
        render p kwargs =
          Inr (concat (map (expand (working_value p kwargs)) (tokens (template p))))"
  proof
    assume h: "map_of kwargs ''self'' = None \<and> validate p kwargs = Inr () \<and>
      Invalid \<notin> set (tokens (template p)) \<and>
      (\<forall>x. Named x \<in> set (tokens (template p)) \<or> Braced x \<in> set (tokens (template p)) \<longrightarrow>
           working_value p kwargs x \<noteq> None)"
    then have "convert_all (apply_defaults p kwargs) (tokens (template p)) =
        Inr (concat (map (expand (map_of (apply_defaults p kwargs))) (tokens (template p))))"
      by (intro convert_all_expand) (simp_all add: w)
    with h show "render p kwargs =
          Inr (concat (map (expand (working_value p kwargs)) (tokens (template p))))"
      by (simp add: render_def substitute_def w)
  qed
qed

theorem apply_defaults_lookup_witness:
  "distinct (map fst (variables summarize_prompt)) \<and>
   distinct (map fst [(''text'', PStr ''X''), (''tone'', PStr ''dry'')]) \<and>
   map_of (apply_defaults summarize_prompt [(''text'', PStr ''X''), (''tone'', PStr ''dry'')])
     ''max_words'' = Some (PInt 100) \<and>
   render greeting_prompt [(''who'', PStr ''Ann'')] = Inr ''Hi Ann, be dry.''"
proof -
  have v: "distinct (map fst (variables summarize_prompt))"
    by code_simp
  have k: "distinct (map fst [(''text'', PStr ''X''), (''tone'', PStr ''dry'')])"
    by code_simp
  have "(case map_of [(''text'', PStr ''X''), (''tone'', PStr ''dry'')] ''max_words'' of
           Some v \<Rightarrow> Some v
         | None \<Rightarrow>
             (case map_of (variables summarize_prompt) ''max_words'' of
                Some var_meta \<Rightarrow> map_of var_meta ''default''
              | None \<Rightarrow> None)) = Some (PInt 100)"
    by code_simp
  with apply_defaults_lookup [OF v k, of "''max_words''"] v k
  have one: "distinct (map fst (variables summarize_prompt)) \<and>
      distinct (map fst [(''text'', PStr ''X''), (''tone'', PStr ''dry'')]) \<and>
      map_of (apply_defaults summarize_prompt [(''text'', PStr ''X''), (''tone'', PStr ''dry'')])
        ''max_words'' = Some (PInt 100)"
    by simp
  have v': "distinct (map fst (variables greeting_prompt))"
    by code_simp
  have k': "distinct (map fst [(''who'', PStr ''Ann'')])"
    by simp
  have t: "tokens (template greeting_prompt) =
      map Text ''Hi '' @ [Named ''who''] @ map Text '', be '' @ [Braced ''tone'', Text CHR ''.'']"
    by code_simp
  have h: "map_of [(''who'', PStr ''Ann'')] ''self'' = None \<and>
      validate greeting_prompt [(''who'', PStr ''Ann'')] = Inr () \<and>
      Invalid \<notin> set (tokens (template greeting_prompt)) \<and>
      (\<forall>x. Named x \<in> set (tokens (template greeting_prompt)) \<or>
            Braced x \<in> set (tokens (template greeting_prompt)) \<longrightarrow>
           working_value greeting_prompt [(''who'', PStr ''Ann'')] x \<noteq> None)"
    unfolding t
    by (auto simp: validate_def validate_var_def dict_get_def working_value_def
        greeting_prompt_def)
  have e: "concat (map (expand (working_value greeting_prompt [(''who'', PStr ''Ann'')]))
             (tokens (template greeting_prompt))) = ''Hi Ann, be dry.''"
    unfolding t by (simp add: working_value_def greeting_prompt_def)
  from apply_defaults_lookup [OF v' k', of "''who''"] h e
  have two: "render greeting_prompt [(''who'', PStr ''Ann'')] = Inr ''Hi Ann, be dry.''"
    by simp
  from one two show ?thesis by simp
qed

section \<open>Rendering with the defaults\<close>

lemma merge_declared_same:
  "\<forall>(v, var_meta) \<in> set vars. map_of kwargs v = map_of var_meta ''default'' \<Longrightarrow>
   merge_declared kwargs vars merged = merge_declared [] vars merged"
  by (induction vars arbitrary: merged) (auto split: option.splits)

lemma validate_vars_Inr:
  "\<forall>(v, var_meta) \<in> set vars. validate_var p kwargs v var_meta = Inr () \<Longrightarrow>
   validate_vars p kwargs vars = Inr ()"
  by (induction vars) auto

lemma validate_var_defaulted_empty:
  "map_of var_meta ''default'' \<noteq> None \<Longrightarrow> validate_var p [] v var_meta = Inr ()"
  by (simp add: validate_var_def)

lemma validate_var_defaulted_typed:
  assumes "map_of var_meta ''default'' = Some d" and "map_of kwargs v = Some d"
    and "truthy (dict_get var_meta ''type'' PNone) \<longrightarrow>
         (\<exists>r. type_map_get (dict_get var_meta ''type'' PNone) = Inr r \<and>
              (\<forall>ty. r = Some ty \<longrightarrow> isinstance d ty))"
  shows "validate_var p kwargs v var_meta = Inr ()"
  using assms by (auto simp: validate_var_def Let_def split: option.splits sum.splits)

text \<open>
  Claim C6, as the code has it. Let every declared variable carry a default, let none be
  named \<open>self\<close>, and let each default pass the type check of its own variable: when the
  tag is true, it can be hashed, and when it is one of the four strings the code checks,
  the default is an instance of that type. Then rendering with nothing supplied gives the
  same result as rendering with a supplied mapping equal to the declared defaults.
\<close>

theorem defaults_round_trip:
  assumes dv: "distinct (map fst (variables p))"
    and dflt: "\<forall>(v, var_meta) \<in> set (variables p). map_of var_meta ''default'' \<noteq> None"
    and kw: "\<forall>k. map_of kwargs k =
               (case map_of (variables p) k of
                  None \<Rightarrow> None
                | Some var_meta \<Rightarrow> map_of var_meta ''default'')"
    and typed: "\<forall>(v, var_meta) \<in> set (variables p). \<forall>d.
               map_of var_meta ''default'' = Some d \<longrightarrow>
               truthy (dict_get var_meta ''type'' PNone) \<longrightarrow>
               (\<exists>r. type_map_get (dict_get var_meta ''type'' PNone) = Inr r \<and>
                    (\<forall>ty. r = Some ty \<longrightarrow> isinstance d ty))"
    and noself: "map_of (variables p) ''self'' = None"
  shows "render p [] = render p kwargs"
proof -
  have look: "map_of kwargs v = map_of var_meta ''default''"
    if "(v, var_meta) \<in> set (variables p)" for v var_meta
  proof -
    from that dv have "map_of (variables p) v = Some var_meta" by simp
    with kw show ?thesis by simp
  qed
  have bind: "map_of kwargs ''self'' = None"
    using kw noself by simp
  have v0: "validate p [] = Inr ()"
    unfolding validate_def
    by (rule validate_vars_Inr) (use dflt in \<open>auto simp: validate_var_defaulted_empty\<close>)
  have v1: "validate p kwargs = Inr ()"
    unfolding validate_def
  proof (rule validate_vars_Inr, clarify)
    fix v var_meta
    assume mem: "(v, var_meta) \<in> set (variables p)"
    with dflt obtain d where d: "map_of var_meta ''default'' = Some d" by auto
    with look [OF mem] have s: "map_of kwargs v = Some d" by simp
    from typed mem d
    have "truthy (dict_get var_meta ''type'' PNone) \<longrightarrow>
         (\<exists>r. type_map_get (dict_get var_meta ''type'' PNone) = Inr r \<and>
              (\<forall>ty. r = Some ty \<longrightarrow> isinstance d ty))"
      by blast
    with d s show "validate_var p kwargs v var_meta = Inr ()"
      by (rule validate_var_defaulted_typed)
  qed
  let ?merged = "merge_declared kwargs (variables p) []"
  have same: "?merged = merge_declared [] (variables p) []"
    by (rule merge_declared_same) (use look in auto)
  have "map_of ?merged k \<noteq> None" if "(k, x) \<in> set kwargs" for k x
  proof -
    from that have "map_of kwargs k \<noteq> None"
      by (metis map_of_eq_None_iff fst_conv image_eqI)
    with kw obtain var_meta where m: "map_of (variables p) k = Some var_meta"
      and d: "map_of var_meta ''default'' \<noteq> None"
      by (auto split: option.splits)
    from \<open>map_of kwargs k \<noteq> None\<close> m show ?thesis
      by (auto simp: map_of_merge_declared [OF dv] split: option.splits)
  qed
  then have "filter (\<lambda>(k, v). map_of ?merged k = None) kwargs = []"
    by (auto simp: filter_empty_conv)
  then have "apply_defaults p kwargs = apply_defaults p []"
    using same by (simp add: apply_defaults_def Let_def)
  with v0 v1 bind show ?thesis
    by (simp add: render_def)
qed

theorem defaults_round_trip_witness:
  "render (defaulted_prompt (PInt 100)) [] =
     render (defaulted_prompt (PInt 100)) [(''max_words'', PInt 100), (''tone'', PStr ''dry'')]"
proof -
  let ?p = "defaulted_prompt (PInt 100)"
  let ?kw = "[(''max_words'', PInt 100), (''tone'', PStr ''dry'')]"
  have dv: "distinct (map fst (variables ?p))"
    by (simp add: defaulted_prompt_def)
  have dflt: "\<forall>(v, var_meta) \<in> set (variables ?p). map_of var_meta ''default'' \<noteq> None"
    by (simp add: defaulted_prompt_def)
  have kw: "\<forall>k. map_of ?kw k =
               (case map_of (variables ?p) k of
                  None \<Rightarrow> None
                | Some var_meta \<Rightarrow> map_of var_meta ''default'')"
    by (simp add: defaulted_prompt_def)
  have typed: "\<forall>(v, var_meta) \<in> set (variables ?p). \<forall>d.
               map_of var_meta ''default'' = Some d \<longrightarrow>
               truthy (dict_get var_meta ''type'' PNone) \<longrightarrow>
               (\<exists>r. type_map_get (dict_get var_meta ''type'' PNone) = Inr r \<and>
                    (\<forall>ty. r = Some ty \<longrightarrow> isinstance d ty))"
    by (simp add: defaulted_prompt_def dict_get_def type_map_def)
  have noself: "map_of (variables ?p) ''self'' = None"
    by (simp add: defaulted_prompt_def)
  from defaults_round_trip [OF dv dflt kw typed noself] show ?thesis .
qed

text \<open>
  The claim as stated fails three ways. A default is checked against the declared type only
  when it is supplied, so a default that is not of its declared type renders when nothing
  is supplied and is rejected when supplied explicitly. The same holds for a default under
  a tag that cannot be hashed: the lookup of the tag raises only when the variable is
  supplied. And the default of a variable named \<open>self\<close> cannot be supplied explicitly at
  all.
\<close>

theorem defaults_round_trip_counterexample:
  "render (defaulted_prompt (PStr ''ten'')) [] = Inr ''Be dry, ten words.'' \<and>
   render (defaulted_prompt (PStr ''ten'')) [(''tone'', PStr ''dry''), (''max_words'', PStr ''ten'')] =
     Inl (TypeError_var ''max_words'' ''style'' ''int'' ''str'') \<and>
   render (tagged_prompt list_tag) [] = Inr ''ten'' \<and>
   render (tagged_prompt list_tag) [(''n'', PStr ''ten'')] = Inl (TypeError_unhashable ''list'') \<and>
   render (self_prompt ''str'') [] = Inr ''I am me'' \<and>
   render (self_prompt ''str'') [(''self'', PStr ''me'')] =
     Inl (TypeError_multiple_values ''self'')"
  by code_simp

section \<open>The vault\<close>

text \<open>
  Claim C1. The claim asks that, for the versions \<open>1.2\<close> and \<open>1.10\<close> of one name,
  \<open>versions\<close> lists \<open>1.2\<close> first and \<open>load\<close> without a version returns the \<open>1.10\<close>
  record. The code sorts the version strings with the plain \<open><\<close> of strings: on this
  store \<open>versions\<close> lists \<open>1.10\<close> first and \<open>load\<close> returns the \<open>1.2\<close> record.
\<close>

theorem version_order_is_lexicographic:
  "versions greet_store ''greet'' = Inr [PStr ''1.10'', PStr ''1.2''] \<and>
   load greet_store ''greet'' None =
     Inr \<lparr>name = ''greet'', version = ''1.2'', template = ''Hello $who'', description = [],
          author = [], tags = [], variables = [], metadata = []\<rparr>"
  by code_simp












section \<open>The diff of equal line lists\<close>

lemma run_diag_pos: "\<not> popular xs (xs ! j) \<Longrightarrow> Suc 0 \<le> run xs j j"
  by (cases j) auto

lemma run_le_diag: "run xs i j \<le> run xs i i \<and> run xs i j \<le> run xs j j"
  by (induction xs i j rule: run.induct) (auto simp: run_diag_pos)

lemma run_unmatched: "\<not> (xs ! i = xs ! j \<and> \<not> popular xs (xs ! i)) \<Longrightarrow> run xs i j = 0"
  by (cases i; cases j) auto

lemma run_matched:
  "xs ! i = xs ! j \<Longrightarrow> \<not> popular xs (xs ! i) \<Longrightarrow>
   run xs i j = (if i = 0 \<or> j = 0 then 0 else run xs (i - 1) (j - 1)) + 1"
  by (cases i; cases j) auto

lemma row_loop_diag:
  assumes "\<forall>j \<in> set js. j2lenget j2len j + 1 = run xs i j"
    and "sorted_wrt (<) js" and "\<forall>j \<in> set js. j < n"
    and "\<forall>j \<in> set js. j < i \<longrightarrow> run xs i j \<le> bs"
    and "\<forall>j \<in> set js. i < j \<longrightarrow> i \<in> set js \<or> run xs i j \<le> bs"
  shows "\<exists>nj bi' bs'.
           row_loop j2len i 0 n js (newj2len, bi, bi, bs) = (nj, bi', bi', bs') \<and> bs \<le> bs' \<and>
           (i \<in> set js \<longrightarrow> run xs i i \<le> bs') \<and>
           (\<forall>j. nj j = (if j \<in> set js then Some (run xs i j) else newj2len j))"
  using assms
proof (induction js arbitrary: newj2len bi bs)
  case Nil
  then show ?case by simp
next
  case (Cons j js)
  let ?k = "j2lenget j2len j + 1"
  from Cons.prems(1) have k: "?k = run xs i j" by simp
  from Cons.prems(2) have gt: "\<forall>j' \<in> set js. j < j'" and srt: "sorted_wrt (<) js"
    by simp_all
  from gt have jn: "j \<notin> set js" by auto
  from Cons.prems(3) have jlt: "j < n" and lt: "\<forall>j \<in> set js. j < n" by simp_all
  from Cons.prems(1) have get: "\<forall>j \<in> set js. j2lenget j2len j + 1 = run xs i j" by simp
  show ?case
  proof (cases "bs < ?k")
    case True
    have ji: "j = i"
    proof (rule ccontr)
      assume ne: "j \<noteq> i"
      show False
      proof (cases "j < i")
        case True
        with Cons.prems(4) k \<open>bs < ?k\<close> show False by simp
      next
        case False
        with ne have "i < j" by simp
        moreover from this gt have "i \<notin> set (j # js)" by auto
        ultimately have "run xs i j \<le> bs" using Cons.prems(5) by auto
        with k \<open>bs < ?k\<close> show False by simp
      qed
    qed
    have h4: "\<forall>j' \<in> set js. j' < i \<longrightarrow> run xs i j' \<le> ?k"
      using gt ji by auto
    have h5: "\<forall>j' \<in> set js. i < j' \<longrightarrow> i \<in> set js \<or> run xs i j' \<le> ?k"
      using k ji run_le_diag [of xs i] by auto
    from Cons.IH [OF get srt lt h4 h5, of "newj2len(j \<mapsto> ?k)" "i + 1 - ?k"]
    obtain nj bi' bs' where r:
      "row_loop j2len i 0 n js (newj2len(j \<mapsto> ?k), i + 1 - ?k, i + 1 - ?k, ?k) = (nj, bi', bi', bs')"
      "?k \<le> bs'"
      "\<forall>j'. nj j' = (if j' \<in> set js then Some (run xs i j') else (newj2len(j \<mapsto> ?k)) j')"
      by blast
    have "row_loop j2len i 0 n (j # js) (newj2len, bi, bi, bs) = (nj, bi', bi', bs')"
      using True jlt r(1) ji by (simp add: Let_def)
    moreover have "bs \<le> bs'" using True r(2) by simp
    moreover have "run xs i i \<le> bs'" using r(2) k ji by simp
    moreover have "\<forall>j'. nj j' = (if j' \<in> set (j # js) then Some (run xs i j') else newj2len j')"
      using r(3) k jn by auto
    ultimately show ?thesis by blast
  next
    case False
    have h4: "\<forall>j' \<in> set js. j' < i \<longrightarrow> run xs i j' \<le> bs"
      using Cons.prems(4) by simp
    have h5: "\<forall>j' \<in> set js. i < j' \<longrightarrow> i \<in> set js \<or> run xs i j' \<le> bs"
    proof (intro ballI impI)
      fix j'
      assume m: "j' \<in> set js" and l: "i < j'"
      with Cons.prems(5) have "i = j \<or> i \<in> set js \<or> run xs i j' \<le> bs" by auto
      moreover have "run xs i j' \<le> bs" if "i = j"
      proof -
        have "run xs i j' \<le> run xs i i" using run_le_diag [of xs i j'] by simp
        with that k False show ?thesis by simp
      qed
      ultimately show "i \<in> set js \<or> run xs i j' \<le> bs" by blast
    qed
    from Cons.IH [OF get srt lt h4 h5, of "newj2len(j \<mapsto> ?k)" bi]
    obtain nj bi' bs' where r:
      "row_loop j2len i 0 n js (newj2len(j \<mapsto> ?k), bi, bi, bs) = (nj, bi', bi', bs')"
      "bs \<le> bs'" "i \<in> set js \<longrightarrow> run xs i i \<le> bs'"
      "\<forall>j'. nj j' = (if j' \<in> set js then Some (run xs i j') else (newj2len(j \<mapsto> ?k)) j')"
      by blast
    have "row_loop j2len i 0 n (j # js) (newj2len, bi, bi, bs) = (nj, bi', bi', bs')"
      using False jlt r(1) by (simp add: Let_def)
    moreover have "i \<in> set (j # js) \<longrightarrow> run xs i i \<le> bs'"
      using r(2,3) k False by auto
    moreover have "\<forall>j'. nj j' = (if j' \<in> set (j # js) then Some (run xs i j') else newj2len j')"
      using r(4) k jn by auto
    ultimately show ?thesis using r(2) by blast
  qed
qed

lemma sorted_indices: "sorted_wrt (<) (indices b elt)"
  by (simp add: indices_def sorted_wrt_filter)

lemma set_indices: "set (indices b elt) = {j. j < length b \<and> b ! j = elt}"
  by (auto simp: indices_def)

lemma set_b2j:
  "set (b2j b elt) = (if popular b elt then {} else {j. j < length b \<and> b ! j = elt})"
  by (simp add: b2j_def set_indices)

lemma sorted_b2j: "sorted_wrt (<) (b2j b elt)"
  by (simp add: b2j_def sorted_indices)

lemma rows_loop_diag:
  assumes "i \<le> length xs"
    and "\<forall>j < length xs. j2lenget j2len j = (if i = 0 \<or> j = 0 then 0 else run xs (i - 1) (j - 1))"
    and "\<forall>i' < i. run xs i' i' \<le> bs"
  shows "\<exists>j2len' bi' bs'.
           rows_loop xs xs 0 (length xs) [i..<length xs] (j2len, bi, bi, bs) = (j2len', bi', bi', bs')"
  using assms
proof (induction "length xs - i" arbitrary: i j2len bi bs)
  case 0
  then show ?case by simp
next
  case (Suc m)
  let ?n = "length xs"
  let ?js = "b2j xs (xs ! i)"
  from Suc.hyps(2) have lt: "i < ?n" by simp
  have mem: "j \<in> set ?js \<longleftrightarrow> j < ?n \<and> xs ! j = xs ! i \<and> \<not> popular xs (xs ! i)" for j
    by (auto simp: set_b2j)
  have h1: "\<forall>j \<in> set ?js. j2lenget j2len j + 1 = run xs i j"
    using Suc.prems(2) by (auto simp: mem run_matched)
  have h3: "\<forall>j \<in> set ?js. j < ?n"
    by (simp add: mem)
  have h4: "\<forall>j \<in> set ?js. j < i \<longrightarrow> run xs i j \<le> bs"
  proof (intro ballI impI)
    fix j assume "j \<in> set ?js" and "j < i"
    with Suc.prems(3) have "run xs j j \<le> bs" by simp
    with run_le_diag [of xs i j] show "run xs i j \<le> bs" by simp
  qed
  have h5: "\<forall>j \<in> set ?js. i < j \<longrightarrow> i \<in> set ?js \<or> run xs i j \<le> bs"
    using lt by (auto simp: mem)
  from row_loop_diag [OF h1 sorted_b2j h3 h4 h5, of Map.empty bi]
  obtain nj bi' bs' where r:
    "row_loop j2len i 0 ?n ?js (Map.empty, bi, bi, bs) = (nj, bi', bi', bs')" "bs \<le> bs'"
    "i \<in> set ?js \<longrightarrow> run xs i i \<le> bs'"
    "\<forall>j. nj j = (if j \<in> set ?js then Some (run xs i j) else None)"
    by auto
  have diag: "run xs i i \<le> bs'"
  proof (cases "i \<in> set ?js")
    case True
    with r(3) show ?thesis by simp
  next
    case False
    with lt have "popular xs (xs ! i)" by (simp add: mem)
    then have "run xs i i = 0" by (simp add: run_unmatched)
    then show ?thesis by simp
  qed
  have p2: "\<forall>j < ?n. j2lenget nj j =
              (if Suc i = 0 \<or> j = 0 then 0 else run xs (Suc i - 1) (j - 1))"
  proof (intro allI impI)
    fix j assume j: "j < ?n"
    show "j2lenget nj j = (if Suc i = 0 \<or> j = 0 then 0 else run xs (Suc i - 1) (j - 1))"
    proof (cases "j = 0")
      case True
      then show ?thesis by (simp add: j2lenget_def)
    next
      case False
      with j have jm: "j - 1 < ?n" by simp
      show ?thesis
      proof (cases "j - 1 \<in> set ?js")
        case True
        with r(4) False show ?thesis by (simp add: j2lenget_def)
      next
        case nin: False
        with jm have "\<not> (xs ! i = xs ! (j - 1) \<and> \<not> popular xs (xs ! i))"
          by (auto simp: mem)
        then have "run xs i (j - 1) = 0" by (rule run_unmatched)
        with r(4) nin False show ?thesis by (simp add: j2lenget_def)
      qed
    qed
  qed
  have p3: "\<forall>i' < Suc i. run xs i' i' \<le> bs'"
    using Suc.prems(3) r(2) diag by (auto simp: less_Suc_eq)
  from Suc.hyps(2) have m: "m = ?n - Suc i" by simp
  from lt have le: "Suc i \<le> ?n" by simp
  from Suc.hyps(1) [OF m le p2 p3, of bi']
  obtain j2len' bi'' bs'' where
    "rows_loop xs xs 0 ?n [Suc i..<?n] (nj, bi', bi', bs') = (j2len', bi'', bi'', bs'')"
    by blast
  with lt r(1) show ?case
    by (simp add: upt_conv_Cons)
qed

lemma extend_back_diag:
  "extend_back (\<lambda>x. True) xs xs 0 0 (bi, bi, bs) = (0, 0, bs + bi)"
proof (induction bi arbitrary: bs)
  case 0
  show ?case by (subst extend_back.simps) simp
next
  case (Suc bi)
  have "extend_back (\<lambda>x. True) xs xs 0 0 (Suc bi, Suc bi, bs) =
        extend_back (\<lambda>x. True) xs xs 0 0 (bi, bi, bs + 1)"
    by (subst extend_back.simps) simp
  with Suc [of "bs + 1"] show ?case by simp
qed

lemma extend_forward_diag:
  "bs \<le> n \<Longrightarrow> extend_forward (\<lambda>x. True) xs xs n n (0, 0, bs) = (0, 0, n)"
proof (induction "n - bs" arbitrary: bs)
  case 0
  then show ?case by (subst extend_forward.simps) simp
next
  case (Suc m)
  then have "extend_forward (\<lambda>x. True) xs xs n n (0, 0, bs) =
             extend_forward (\<lambda>x. True) xs xs n n (0, 0, bs + 1)"
    by (subst extend_forward.simps) simp
  moreover from Suc have "extend_forward (\<lambda>x. True) xs xs n n (0, 0, bs + 1) = (0, 0, n)"
    by (intro Suc.hyps(1)) simp_all
  ultimately show ?case by simp
qed

lemma extend_back_never: "extend_back (\<lambda>x. False) a b alo blo best = best"
proof -
  obtain besti bestj bestsize where b: "best = (besti, bestj, bestsize)"
    by (cases best)
  show ?thesis
    unfolding b by (subst extend_back.simps) simp
qed

lemma extend_forward_never: "extend_forward (\<lambda>x. False) a b ahi bhi best = best"
proof -
  obtain besti bestj bestsize where b: "best = (besti, bestj, bestsize)"
    by (cases best)
  show ?thesis
    unfolding b by (subst extend_forward.simps) simp
qed

lemma find_longest_match_same:
  "find_longest_match xs xs 0 (length xs) 0 (length xs) = (0, 0, length xs)"
proof -
  let ?n = "length xs"
  have "\<exists>j2len' bi' bs'.
          rows_loop xs xs 0 ?n [0..<?n] (Map.empty, 0, 0, 0) = (j2len', bi', bi', bs')"
    by (rule rows_loop_diag) (simp_all add: j2lenget_def)
  then obtain j2len' bi' bs' where
    r: "rows_loop xs xs 0 ?n [0..<?n] (Map.empty, 0, 0, 0) = (j2len', bi', bi', bs')"
    by blast
  have "in_range 0 ?n (0, 0, 0)"
    by (simp add: in_range_def)
  from rows_loop_bound [OF _ _ this r] have "bi' + bs' \<le> ?n"
    by (auto simp: in_range_def)
  then have "extend_forward (\<lambda>x. True) xs xs ?n ?n (0, 0, bs' + bi') = (0, 0, ?n)"
    by (intro extend_forward_diag) simp
  then show ?thesis
    by (simp add: find_longest_match_def r extend_back_diag extend_back_never
        extend_forward_never)
qed

lemma get_matching_blocks_same:
  "get_matching_blocks xs xs =
     (if xs = [] then [(0, 0, 0)] else [(0, 0, length xs), (length xs, length xs, 0)])"
  by (simp add: get_matching_blocks_def Let_def find_longest_match_same)

lemma get_opcodes_same:
  "get_opcodes xs xs = (if xs = [] then [] else [(Equal, 0, length xs, 0, length xs)])"
  by (simp add: get_opcodes_def get_matching_blocks_same)

lemma get_grouped_opcodes_same: "get_grouped_opcodes 3 xs xs = []"
  by (auto simp: get_grouped_opcodes_def get_opcodes_same Let_def)

lemma unified_diff_same: "unified_diff xs xs fromfile tofile = []"
  by (simp add: unified_diff_def get_grouped_opcodes_same)

text \<open>
  Claim C7. \<open>diff\<close> of a version with itself returns the text \<open>(no differences)\<close>
  whenever that version loads, and so does \<open>diff\<close> of any two versions that load with equal
  templates.
\<close>

theorem diff_identical_templates:
  "(load store nm (Some v) = Inr a \<longrightarrow>
      diff store nm v v = Inr ''(no differences)'') \<and>
   (load store nm (Some version_a) = Inr a \<and> load store nm (Some version_b) = Inr b \<and>
    template a = template b \<longrightarrow>
      diff store nm version_a version_b = Inr ''(no differences)'')"
  by (simp add: diff_def Let_def unified_diff_same)

theorem diff_identical_templates_witness:
  "diff greet_store ''greet'' ''1.10'' ''1.10'' = Inr ''(no differences)''"
proof -
  have l: "load greet_store ''greet'' (Some ''1.10'') =
      Inr \<lparr>name = ''greet'', version = ''1.10'', template = ''Good day, $who'',
           description = [], author = [], tags = [], variables = [], metadata = []\<rparr>"
    by code_simp
  from diff_identical_templates [of greet_store "''greet''" "''1.10''"] l
  show ?thesis by blast
qed

text \<open>
  Claim C8. On a vault constructed without a log file (none given, or the empty string),
  \<open>log\<close> returns normally for all arguments and leaves the file system as it was.
\<close>

theorem log_without_sink_is_noop:
  assumes "PromptVault fs0 pth lf = Inr v" and "lf = None \<or> lf = Some []"
  shows "log_usage dumps now v nm ver rendered response model extra fs = Inr fs"
  using assms by (auto simp: PromptVault_def log_usage_def split: if_splits)

theorem log_without_sink_is_noop_witness:
  "log_usage (\<lambda>d. concat (map fst d)) ''2026-01-01T00:00:00''
     \<lparr>path = [''prompts''], log_file = None\<rparr> ''greet'' (Some ''1.2'') (Some ''Hello X'')
     (Some ''Hi'') None None prompts_fs = Inr prompts_fs"
proof -
  have c: "PromptVault prompts_fs ''prompts'' None = Inr \<lparr>path = [''prompts''], log_file = None\<rparr>"
    by code_simp
  have n: "None = None \<or> None = Some ([] :: string)"
    by simp
  from log_without_sink_is_noop [OF c n] show ?thesis .
qed

end
